theory Spec2Isabelle
  imports Main "HOL-Library.Sublist"
begin

section \<open>JavaScript values\<close>

text \<open>
  The wrapper handles untyped run-time data: the request's \<^verbatim>\<open>params\<close>, \<^verbatim>\<open>body\<close> and
  \<^verbatim>\<open>query\<close>, the schema documents that \<^verbatim>\<open>require\<close> returns, and the controller's result.
  The values are those of JSON and \<^verbatim>\<open>undefined\<close>; an object is the list of its
  properties, each name once, read by name. Numbers are kept to the integers; no
  operation of the wrapper computes with them.
\<close>

datatype jsval =
    JUndefined
  | JNull
  | JBool bool
  | JNum int
  | JStr string
  | JArr "jsval list"
  | JObj "(string \<times> jsval) list"

text \<open>The conversion to boolean that \<^verbatim>\<open>!\<close> applies to its operand.\<close>

fun truthy :: "jsval \<Rightarrow> bool" where
  "truthy JUndefined = False"
| "truthy JNull = False"
| "truthy (JBool b) = b"
| "truthy (JNum n) = (n \<noteq> 0)"
| "truthy (JStr s) = (s \<noteq> [])"
| "truthy (JArr xs) = True"
| "truthy (JObj fs) = True"

datatype error =
    TypeError
  | RequireError string
  | CompileError jsval
  | Thrown string

text \<open>
  Reading a property \<^verbatim>\<open>v.k\<close>: it throws on \<^verbatim>\<open>undefined\<close> and \<^verbatim>\<open>null\<close>, gives the
  field of an object or \<^verbatim>\<open>undefined\<close> when the object has none, and \<^verbatim>\<open>undefined\<close> on
  the other values. This is the reading of a name that is neither an index nor a member
  of a built-in prototype; the names read in this program (\<^verbatim>\<open>id\<close>, \<^verbatim>\<open>message\<close>,
  \<^verbatim>\<open>completed\<close>) are of that kind.
\<close>

definition field :: "(string \<times> jsval) list \<Rightarrow> string \<Rightarrow> jsval" where
  "field fs k = (case map_of fs k of None \<Rightarrow> JUndefined | Some v \<Rightarrow> v)"

fun getProperty :: "jsval \<Rightarrow> string \<Rightarrow> error + jsval" where
  "getProperty JUndefined k = Inl TypeError"
| "getProperty JNull k = Inl TypeError"
| "getProperty (JObj fs) k = Inr (field fs k)"
| "getProperty v k = Inr JUndefined"

section \<open>The sample types and the sample controller\<close>

record EditTodoParams =
  params_id :: string

record EditTodoReqBody =
  body_message :: string
  body_completed :: "bool option"

record EditTodoResBody =
  res_id :: string
  res_message :: string
  res_completed :: bool

text \<open>The run-time objects that are the values of the three sample types.\<close>

definition of_EditTodoParams :: "EditTodoParams \<Rightarrow> jsval" where
  "of_EditTodoParams p = JObj [(''id'', JStr (params_id p))]"

definition of_EditTodoReqBody :: "EditTodoReqBody \<Rightarrow> jsval" where
  "of_EditTodoReqBody b =
     JObj ((''message'', JStr (body_message b)) #
           (case body_completed b of None \<Rightarrow> [] | Some c \<Rightarrow> [(''completed'', JBool c)]))"

definition of_EditTodoResBody :: "EditTodoResBody \<Rightarrow> jsval" where
  "of_EditTodoResBody r =
     JObj [(''id'', JStr (res_id r)), (''message'', JStr (res_message r)),
           (''completed'', JBool (res_completed r))]"

definition editTodo :: "jsval \<Rightarrow> jsval \<Rightarrow> jsval \<Rightarrow> error + jsval" where
  "editTodo params reqBody reqQuery =
     (case getProperty params ''id'' of Inl e \<Rightarrow> Inl e | Inr i \<Rightarrow>
       (case getProperty reqBody ''message'' of Inl e \<Rightarrow> Inl e | Inr m \<Rightarrow>
         (case getProperty reqBody ''completed'' of Inl e \<Rightarrow> Inl e | Inr c \<Rightarrow>
            Inr (JObj [(''id'', i), (''message'', m),
                       (''completed'', JBool (\<not> truthy c))]))))"

section \<open>The validating wrapper\<close>

text \<open>
  What the wrapper uses and the source does not define: the compiler of the validation
  library (\<^verbatim>\<open>ajv.compile\<close>, which gives a validator or throws), the schema documents
  under \<^verbatim>\<open>./schemas/\<close> by name, and the text that \<^verbatim>\<open>JSON.stringify(v, undefined, 2)\<close>
  contributes to a template string. The \<^verbatim>\<open>Ajv\<close> instance is made anew in every
  request, without options: what it compiles a schema to depends on the schema only, and
  a validator reads its argument and answers yes or no.
\<close>

record env =
  compile :: "jsval \<Rightarrow> error + (jsval \<Rightarrow> bool)"
  schemaFiles :: "string \<rightharpoonup> jsval"
  stringify :: "jsval \<Rightarrow> string"

record schemas =
  paramsSchema :: "string option"
  reqBodySchema :: "string option"
  resBodySchema :: "string option"
  reqQuerySchema :: "string option"

text \<open>
  Of the request the wrapper reads \<^verbatim>\<open>params\<close>, \<^verbatim>\<open>body\<close> and \<^verbatim>\<open>query\<close>; whatever else
  the framework's request object carries is the extension of the record.
\<close>

record request =
  params :: jsval
  body :: jsval
  query :: jsval

datatype payload = Params | ReqBody | ReqQuery | ResBody

text \<open>
  The calls that leave the wrapper, in the order they are made: the log line, each
  \<^verbatim>\<open>require\<close>, each \<^verbatim>\<open>ajv.compile\<close>, each call of a validator (with the schema it was
  compiled from, its argument and its answer), the call of the controller, and
  \<^verbatim>\<open>res.status(s).json(v)\<close>.
\<close>

datatype 'a event =
    Logged "'a request_scheme"
  | Required string
  | Compiled jsval
  | Validated payload jsval jsval bool
  | Invoked jsval jsval jsval
  | Sent nat jsval

text \<open>
  A computation starts from the module cache of \<^verbatim>\<open>require\<close> (the one state that
  outlives a request) and gives its result or the error it threw, the calls it made, and
  the cache it leaves.
\<close>

type_synonym modules = "string \<rightharpoonup> jsval"

type_synonym ('a, 'b) comp = "modules \<Rightarrow> (error + 'b) \<times> 'a event list \<times> modules"

definition unit_comp :: "'b \<Rightarrow> ('a, 'b) comp" where
  "unit_comp x c = (Inr x, [], c)"

definition throw :: "error \<Rightarrow> ('a, 'b) comp" where
  "throw e c = (Inl e, [], c)"

definition emit :: "'a event \<Rightarrow> ('a, unit) comp" where
  "emit ev c = (Inr (), [ev], c)"

definition lift :: "error + 'b \<Rightarrow> ('a, 'b) comp" where
  "lift r c = (r, [], c)"

definition bind_comp :: "('a, 'b) comp \<Rightarrow> ('b \<Rightarrow> ('a, 'c) comp) \<Rightarrow> ('a, 'c) comp" where
  "bind_comp m f c =
     (case m c of
        (Inl e, t, c') \<Rightarrow> (Inl e, t, c')
      | (Inr x, t, c') \<Rightarrow> (case f x c' of (r, t', c'') \<Rightarrow> (r, t @ t', c'')))"

text \<open>
  \<^verbatim>\<open>require(`./schemas/${name}.json`)\<close>: a module loaded before comes from the cache;
  otherwise the file is read and cached, and a file that is missing throws.
\<close>

definition require :: "env \<Rightarrow> string \<Rightarrow> ('a, jsval) comp" where
  "require e name =
     bind_comp (emit (Required name)) (\<lambda>_. \<lambda>c.
       (case c name of
          Some doc \<Rightarrow> (Inr doc, [], c)
        | None \<Rightarrow>
            (case schemaFiles e name of
               None \<Rightarrow> (Inl (RequireError name), [], c)
             | Some doc \<Rightarrow> (Inr doc, [], c(name \<mapsto> doc)))))"

text \<open>
  \<^verbatim>\<open>schemas.x ? require(...) : {}\<close>: an absent name and the empty string are both falsy.
\<close>

definition loadSchema :: "env \<Rightarrow> string option \<Rightarrow> ('a, jsval) comp" where
  "loadSchema e ref =
     (case ref of
        None \<Rightarrow> unit_comp (JObj [])
      | Some name \<Rightarrow> if name = [] then unit_comp (JObj []) else require e name)"

definition ajvCompile :: "env \<Rightarrow> jsval \<Rightarrow> ('a, jsval \<Rightarrow> bool) comp" where
  "ajvCompile e schema = bind_comp (emit (Compiled schema)) (\<lambda>_. lift (compile e schema))"

definition validationError :: "env \<Rightarrow> string \<Rightarrow> jsval \<Rightarrow> jsval \<Rightarrow> string" where
  "validationError e name v schema =
     ''Could not validate '' @ name @ '' '' @ stringify e v @
     '' against schema '' @ stringify e schema"

definition wrappedController ::
  "env \<Rightarrow> schemas \<Rightarrow> (jsval \<Rightarrow> jsval \<Rightarrow> jsval \<Rightarrow> error + jsval) \<Rightarrow>
     'a request_scheme \<Rightarrow> ('a, unit) comp" where
  "wrappedController e schemas controller req =
     bind_comp (emit (Logged req)) (\<lambda>_.
     bind_comp (loadSchema e (paramsSchema schemas)) (\<lambda>pSchema.
     bind_comp (ajvCompile e pSchema) (\<lambda>validateParams.
     bind_comp (emit (Validated Params pSchema (params req) (validateParams (params req)))) (\<lambda>_.
     bind_comp (if \<not> validateParams (params req)
                then throw (Thrown (validationError e ''request'' (params req) pSchema))
                else unit_comp ()) (\<lambda>_.
     bind_comp (loadSchema e (reqBodySchema schemas)) (\<lambda>bSchema.
     bind_comp (ajvCompile e bSchema) (\<lambda>validateReqBody.
     bind_comp (emit (Validated ReqBody bSchema (body req) (validateReqBody (body req)))) (\<lambda>_.
     bind_comp (if \<not> validateReqBody (body req)
                then throw (Thrown (validationError e ''body'' (body req) bSchema))
                else unit_comp ()) (\<lambda>_.
     bind_comp (loadSchema e (reqQuerySchema schemas)) (\<lambda>qSchema.
     bind_comp (ajvCompile e qSchema) (\<lambda>validateReqQuery.
     bind_comp (emit (Validated ReqQuery qSchema (query req) (validateReqQuery (query req)))) (\<lambda>_.
     bind_comp (if \<not> validateReqQuery (query req)
                then throw (Thrown (validationError e ''query'' (query req) qSchema))
                else unit_comp ()) (\<lambda>_.
     bind_comp (emit (Invoked (params req) (body req) (query req))) (\<lambda>_.
     bind_comp (lift (controller (params req) (body req) (query req))) (\<lambda>resBody.
     bind_comp (loadSchema e (resBodySchema schemas)) (\<lambda>rSchema.
     bind_comp (ajvCompile e rSchema) (\<lambda>validateResBody.
     bind_comp (emit (Validated ResBody rSchema resBody (validateResBody resBody))) (\<lambda>_.
     bind_comp (if \<not> validateResBody resBody
                then throw (Thrown (validationError e ''response body'' resBody rSchema))
                else unit_comp ()) (\<lambda>_.
     emit (Sent 200 resBody))))))))))))))))))))"

text \<open>
  \<^verbatim>\<open>put\<close> builds the wrapped controller from the schema names and the controller and
  registers it for the route; the application is the list of its routes.
\<close>

record 'a route =
  route_path :: string
  route_handler :: "'a request_scheme \<Rightarrow> ('a, unit) comp"

definition put ::
  "env \<Rightarrow> 'a route list \<Rightarrow> string \<Rightarrow> schemas \<Rightarrow>
     (jsval \<Rightarrow> jsval \<Rightarrow> jsval \<Rightarrow> error + jsval) \<Rightarrow> 'a route list" where
  "put e app route schemas controller =
     app @ [\<lparr>route_path = route, route_handler = wrappedController e schemas controller\<rparr>]"

text \<open>The registration of the sample: three schema names, none for the query.\<close>

definition sampleSchemas :: schemas where
  "sampleSchemas =
     \<lparr>paramsSchema = Some ''EditTodoParams'', reqBodySchema = Some ''EditTodoReqBody'',
      resBodySchema = Some ''EditTodoResBody'', reqQuerySchema = None\<rparr>"

definition sampleApp :: "env \<Rightarrow> 'a route list" where
  "sampleApp e = put e [] ''/todo/:id'' sampleSchemas editTodo"

section \<open>The validation library on the schemas of this repository\<close>

text \<open>
  The schema documents use four keywords of JSON Schema: \<^verbatim>\<open>type\<close> (with one type name),
  \<^verbatim>\<open>nullable\<close>, \<^verbatim>\<open>properties\<close> and \<^verbatim>\<open>required\<close>. \<open>ajv_compile\<close> is the library's
  compiler on the schemas written with these keywords, with their JSON Schema meaning:
  \<^verbatim>\<open>type\<close> constrains every value (and \<^verbatim>\<open>nullable\<close> lets \<^verbatim>\<open>null\<close> through),
  \<^verbatim>\<open>required\<close> and \<^verbatim>\<open>properties\<close> constrain objects only, a property counts as there
  when its value is not \<^verbatim>\<open>undefined\<close>, and the empty schema constrains nothing. A
  schema with anything else is refused, as the library's strict mode refuses a keyword it
  does not know and a \<^verbatim>\<open>required\<close> list that repeats a name; what the library does on
  the keywords left out, and on the names that every object inherits, is not modelled.
\<close>

definition typeNames :: "string list" where
  "typeNames = [''object'', ''array'', ''string'', ''number'', ''integer'', ''boolean'', ''null'']"

definition hasType :: "string \<Rightarrow> jsval \<Rightarrow> bool" where
  "hasType t v =
     (case v of
        JUndefined \<Rightarrow> False
      | JNull \<Rightarrow> t = ''null''
      | JBool b \<Rightarrow> t = ''boolean''
      | JNum n \<Rightarrow> t = ''number'' \<or> t = ''integer''
      | JStr s \<Rightarrow> t = ''string''
      | JArr xs \<Rightarrow> t = ''array''
      | JObj fs \<Rightarrow> t = ''object'')"

definition checkType :: "jsval option \<Rightarrow> jsval option \<Rightarrow> jsval \<Rightarrow> bool" where
  "checkType ty nullable v =
     (case ty of
        Some (JStr t) \<Rightarrow> hasType t v \<or> (nullable = Some (JBool True) \<and> v = JNull)
      | _ \<Rightarrow> True)"

definition present :: "(string \<times> jsval) list \<Rightarrow> string \<Rightarrow> bool" where
  "present fs k = (field fs k \<noteq> JUndefined)"

definition checkRequired :: "jsval option \<Rightarrow> jsval \<Rightarrow> bool" where
  "checkRequired req v =
     (case (req, v) of
        (Some (JArr names), JObj fs) \<Rightarrow>
           list_all (\<lambda>n. case n of JStr k \<Rightarrow> present fs k | _ \<Rightarrow> True) names
      | _ \<Rightarrow> True)"

definition subschemas :: "jsval \<Rightarrow> (string \<times> jsval) list" where
  "subschemas schema =
     (case schema of
        JObj kws \<Rightarrow> (case map_of kws ''properties'' of Some (JObj props) \<Rightarrow> props | _ \<Rightarrow> [])
      | _ \<Rightarrow> [])"

lemma size_map_of: "map_of kws k = Some v \<Longrightarrow> size v < size (JObj kws)"
  by (induction kws) (auto split: if_splits)

lemma size_member: "(k, v) \<in> set kws \<Longrightarrow> size v < size (JObj kws)"
  by (induction kws) auto

lemma size_subschemas:
  assumes "(k, sub) \<in> set (subschemas schema)"
  shows "size sub < size schema"
proof (cases schema)
  case (JObj kws)
  with assms have
    "(k, sub) \<in> set (case map_of kws ''properties'' of Some (JObj props) \<Rightarrow> props | _ \<Rightarrow> [])"
    by (simp add: subschemas_def)
  then obtain props where
    props: "map_of kws ''properties'' = Some (JObj props)" and sub: "(k, sub) \<in> set props"
    by (cases "map_of kws ''properties''") (auto split: jsval.splits)
  have "size sub < size (JObj props)"
    using sub by (rule size_member)
  also have "\<dots> < size (JObj kws)"
    using props by (rule size_map_of)
  finally show ?thesis
    using JObj by simp
qed (use assms in \<open>simp_all add: subschemas_def\<close>)

function ajv_validate :: "jsval \<Rightarrow> jsval \<Rightarrow> bool" where
  "ajv_validate schema v =
     (case schema of
        JObj kws \<Rightarrow>
          checkType (map_of kws ''type'') (map_of kws ''nullable'') v \<and>
          checkRequired (map_of kws ''required'') v \<and>
          (case v of
             JObj fs \<Rightarrow>
               list_all (\<lambda>(k, sub). \<not> present fs k \<or> ajv_validate sub (field fs k))
                 (subschemas schema)
           | _ \<Rightarrow> True)
      | _ \<Rightarrow> True)"
  by pat_completeness auto
termination
  by (relation "measure (\<lambda>(schema, v). size schema)") (auto dest: size_subschemas)

declare ajv_validate.simps [simp del]

text \<open>
  The names that every object inherits. The library reads a property with \<^verbatim>\<open>data[k]\<close>,
  which finds these on any object, so a schema that names one of them under
  \<^verbatim>\<open>required\<close> or \<^verbatim>\<open>properties\<close> is outside what \<open>ajv_validate\<close> describes.
\<close>

definition inheritedNames :: "string list" where
  "inheritedNames =
     [''constructor'', ''__defineGetter__'', ''__defineSetter__'', ''hasOwnProperty'',
      ''__lookupGetter__'', ''__lookupSetter__'', ''isPrototypeOf'',
      ''propertyIsEnumerable'', ''toString'', ''valueOf'', ''__proto__'',
      ''toLocaleString'']"

definition keywordOk :: "(string \<times> jsval) list \<Rightarrow> string \<times> jsval \<Rightarrow> bool" where
  "keywordOk kws kw =
     (case kw of (k, x) \<Rightarrow>
        if k = ''type'' then (case x of JStr t \<Rightarrow> t \<in> set typeNames | _ \<Rightarrow> False)
        else if k = ''nullable'' then
          (case x of JBool b \<Rightarrow> map_of kws ''type'' \<noteq> None | _ \<Rightarrow> False)
        else if k = ''required'' then
          (case x of
             JArr names \<Rightarrow>
               distinct names \<and>
               list_all (\<lambda>n. case n of JStr s \<Rightarrow> s \<notin> set inheritedNames | _ \<Rightarrow> False) names
           | _ \<Rightarrow> False)
        else if k = ''properties'' then
          (case x of
             JObj props \<Rightarrow>
               distinct (map fst props) \<and>
               list_all (\<lambda>name. name \<notin> set inheritedNames) (map fst props)
           | _ \<Rightarrow> False)
        else False)"

function ajv_supported :: "jsval \<Rightarrow> bool" where
  "ajv_supported schema =
     (case schema of
        JObj kws \<Rightarrow>
          distinct (map fst kws) \<and> list_all (keywordOk kws) kws \<and>
          list_all (\<lambda>(k, sub). ajv_supported sub) (subschemas schema)
      | _ \<Rightarrow> False)"
  by pat_completeness auto
termination
  by (relation "measure size") (auto dest: size_subschemas)

declare ajv_supported.simps [simp del]

definition ajv_compile :: "jsval \<Rightarrow> error + (jsval \<Rightarrow> bool)" where
  "ajv_compile schema =
     (if ajv_supported schema then Inr (ajv_validate schema) else Inl (CompileError schema))"

text \<open>
  The three schema documents of the sample, as the repository's documentation gives them.
\<close>

definition EditTodoParams_json :: jsval where
  "EditTodoParams_json =
     JObj [(''type'', JStr ''object''),
           (''properties'', JObj [(''id'', JObj [(''type'', JStr ''string'')])]),
           (''required'', JArr [JStr ''id''])]"

definition EditTodoReqBody_json :: jsval where
  "EditTodoReqBody_json =
     JObj [(''type'', JStr ''object''),
           (''properties'',
              JObj [(''message'', JObj [(''type'', JStr ''string'')]),
                    (''completed?'',
                       JObj [(''type'', JStr ''boolean''), (''nullable'', JBool True)])]),
           (''required'', JArr [JStr ''message''])]"

definition EditTodoResBody_json :: jsval where
  "EditTodoResBody_json =
     JObj [(''type'', JStr ''object''),
           (''properties'',
              JObj [(''id'', JObj [(''type'', JStr ''string'')]),
                    (''message'', JObj [(''type'', JStr ''string'')]),
                    (''completed'', JObj [(''type'', JStr ''boolean'')])]),
           (''required'', JArr [JStr ''id'', JStr ''message'', JStr ''completed''])]"

definition sampleFiles :: modules where
  "sampleFiles =
     [''EditTodoParams'' \<mapsto> EditTodoParams_json,
      ''EditTodoReqBody'' \<mapsto> EditTodoReqBody_json,
      ''EditTodoResBody'' \<mapsto> EditTodoResBody_json]"

section \<open>Reading a run\<close>

text \<open>The three components of what a computation gives.\<close>

definition result :: "(error + 'b) \<times> 'a event list \<times> modules \<Rightarrow> error + 'b" where
  "result x = fst x"

definition calls :: "(error + 'b) \<times> 'a event list \<times> modules \<Rightarrow> 'a event list" where
  "calls x = fst (snd x)"

definition cache :: "(error + 'b) \<times> 'a event list \<times> modules \<Rightarrow> modules" where
  "cache x = snd (snd x)"

text \<open>
  The steps of the pipeline that a list of calls went through, the controller calls in it
  and the responses in it.
\<close>

datatype step = Validation payload | Handler | Respond

fun step_of :: "'a event \<Rightarrow> step list" where
  "step_of (Validated p s v ok) = [Validation p]"
| "step_of (Invoked p b q) = [Handler]"
| "step_of (Sent st v) = [Respond]"
| "step_of ev = []"

definition steps :: "'a event list \<Rightarrow> step list" where
  "steps t = concat (map step_of t)"

definition pipeline :: "step list" where
  "pipeline =
     [Validation Params, Validation ReqBody, Validation ReqQuery, Handler,
      Validation ResBody, Respond]"

fun invocation_of :: "'a event \<Rightarrow> (jsval \<times> jsval \<times> jsval) list" where
  "invocation_of (Invoked p b q) = [(p, b, q)]"
| "invocation_of ev = []"

definition invocations :: "'a event list \<Rightarrow> (jsval \<times> jsval \<times> jsval) list" where
  "invocations t = concat (map invocation_of t)"

fun response_of :: "'a event \<Rightarrow> (nat \<times> jsval) list" where
  "response_of (Sent st v) = [(st, v)]"
| "response_of ev = []"

definition responses :: "'a event list \<Rightarrow> (nat \<times> jsval) list" where
  "responses t = concat (map response_of t)"

text \<open>The schema name that a registration gives for a payload, and the name under which
  a failure of that payload is reported.\<close>

fun refOf :: "schemas \<Rightarrow> payload \<Rightarrow> string option" where
  "refOf schemas Params = paramsSchema schemas"
| "refOf schemas ReqBody = reqBodySchema schemas"
| "refOf schemas ReqQuery = reqQuerySchema schemas"
| "refOf schemas ResBody = resBodySchema schemas"

fun label :: "payload \<Rightarrow> string" where
  "label Params = ''request''"
| "label ReqBody = ''body''"
| "label ReqQuery = ''query''"
| "label ResBody = ''response body''"

text \<open>
  What \<^verbatim>\<open>require\<close> gives for a name from a cache: the cached module, else the file.
  \<open>lookupSchema\<close> is the schema that a reference stands for, if there is one. The
  \<open>verdict\<close> on a value is what loading that schema, compiling it and running its
  validator on the value come to: an error before any validation, a rejection or an
  acceptance, with the schema. \<open>validates\<close> and \<open>violates\<close> are the last two.
\<close>

definition visible :: "env \<Rightarrow> modules \<Rightarrow> modules" where
  "visible e c = schemaFiles e ++ c"

definition lookupSchema :: "env \<Rightarrow> modules \<Rightarrow> string option \<Rightarrow> jsval option" where
  "lookupSchema e c ref =
     (case ref of
        None \<Rightarrow> Some (JObj [])
      | Some name \<Rightarrow> if name = [] then Some (JObj []) else visible e c name)"

datatype verdict = Halt error | Reject jsval | Accept jsval

definition verdict :: "env \<Rightarrow> modules \<Rightarrow> string option \<Rightarrow> jsval \<Rightarrow> verdict" where
  "verdict e c ref v =
     (case lookupSchema e c ref of
        None \<Rightarrow> Halt (RequireError (case ref of None \<Rightarrow> [] | Some name \<Rightarrow> name))
      | Some schema \<Rightarrow>
          (case compile e schema of
             Inl err \<Rightarrow> Halt err
           | Inr f \<Rightarrow> if f v then Accept schema else Reject schema))"

definition validates :: "env \<Rightarrow> modules \<Rightarrow> string option \<Rightarrow> jsval \<Rightarrow> bool" where
  "validates e c ref v = (case verdict e c ref v of Accept schema \<Rightarrow> True | _ \<Rightarrow> False)"

definition violates :: "env \<Rightarrow> modules \<Rightarrow> string option \<Rightarrow> jsval \<Rightarrow> bool" where
  "violates e c ref v = (case verdict e c ref v of Reject schema \<Rightarrow> True | _ \<Rightarrow> False)"

text \<open>One validation block of the wrapper; the wrapper is four of them around the
  controller (\<open>wrappedController_blocks\<close>).\<close>

definition block :: "env \<Rightarrow> payload \<Rightarrow> string option \<Rightarrow> jsval \<Rightarrow> ('a, unit) comp" where
  "block e p ref v =
     bind_comp (loadSchema e ref) (\<lambda>schema.
     bind_comp (ajvCompile e schema) (\<lambda>validate.
     bind_comp (emit (Validated p schema v (validate v))) (\<lambda>_.
       if \<not> validate v then throw (Thrown (validationError e (label p) v schema))
       else unit_comp ())))"

text \<open>The calls that are steps of the pipeline, as opposed to loading and compiling.\<close>

fun observable :: "'a event \<Rightarrow> bool" where
  "observable (Validated p s v ok) = True"
| "observable (Invoked p b q) = True"
| "observable (Sent st v) = True"
| "observable ev = False"

definition core :: "'a event list \<Rightarrow> 'a event list" where
  "core t = filter observable t"

text \<open>The result of a run with its observable calls.\<close>

definition summary ::
  "(error + 'b) \<times> 'a event list \<times> modules \<Rightarrow> (error + 'b) \<times> 'a event list" where
  "summary x = (result x, core (calls x))"

text \<open>A failed validation, if the run has one, ends the run: it is the last call, and the
  result is an error.\<close>

definition failsLast :: "(error + 'b) \<times> 'a event list \<times> modules \<Rightarrow> bool" where
  "failsLast x =
     (\<forall>p s v. Validated p s v False \<in> set (calls x) \<longrightarrow>
        (\<exists>err. result x = Inl err) \<and> (\<exists>a. calls x = a @ [Validated p s v False]))"

text \<open>
  All four validations of a request succeed: the three payloads of the request pass, the
  controller returns, and what it returns passes.
\<close>

definition allValid ::
  "env \<Rightarrow> modules \<Rightarrow> schemas \<Rightarrow> (jsval \<Rightarrow> jsval \<Rightarrow> jsval \<Rightarrow> error + jsval) \<Rightarrow>
     'a request_scheme \<Rightarrow> bool" where
  "allValid e c schemas controller req =
     (validates e c (paramsSchema schemas) (params req) \<and>
      validates e c (reqBodySchema schemas) (body req) \<and>
      validates e c (reqQuerySchema schemas) (query req) \<and>
      (case controller (params req) (body req) (query req) of
         Inl err \<Rightarrow> False
       | Inr resBody \<Rightarrow> validates e c (resBodySchema schemas) resBody))"

text \<open>
  The sample in its environment: the validation library on the three schema files, with
  any rendering of values in messages. A value lacks a property when it is not an object
  that has it.
\<close>

definition sampleEnv :: "(jsval \<Rightarrow> string) \<Rightarrow> env" where
  "sampleEnv str = \<lparr>compile = ajv_compile, schemaFiles = sampleFiles, stringify = str\<rparr>"

definition lacks :: "jsval \<Rightarrow> string \<Rightarrow> bool" where
  "lacks v k = (case v of JObj fs \<Rightarrow> \<not> present fs k | _ \<Rightarrow> True)"

text \<open>Three requests to the sample route, an environment for them, a registration that
  names no schema, and a controller whose result has none of the properties that the
  response schema of the sample requires.\<close>

definition plainEnv :: env where
  "plainEnv = sampleEnv (\<lambda>v. ''#'')"

definition goodRequest :: request where
  "goodRequest =
     \<lparr>params = JObj [(''id'', JStr ''1'')], body = JObj [(''message'', JStr ''todo'')],
      query = JObj []\<rparr>"

definition noMessageRequest :: request where
  "noMessageRequest = \<lparr>params = JObj [(''id'', JStr ''1'')], body = JObj [], query = JObj []\<rparr>"

definition noIdRequest :: request where
  "noIdRequest = \<lparr>params = JObj [], body = JObj [(''message'', JStr ''todo'')], query = JObj []\<rparr>"

definition noSchemas :: schemas where
  "noSchemas =
     \<lparr>paramsSchema = None, reqBodySchema = None, resBodySchema = None,
      reqQuerySchema = None\<rparr>"

definition emptyController :: "jsval \<Rightarrow> jsval \<Rightarrow> jsval \<Rightarrow> error + jsval" where
  "emptyController p b q = Inr (JObj [])"

text \<open>
  The closed form of a run (\<open>run_outline\<close>): its result and its observable calls, from
  the verdicts on the four payloads and the controller's result.
\<close>

definition outline ::
  "env \<Rightarrow> modules \<Rightarrow> schemas \<Rightarrow> (jsval \<Rightarrow> jsval \<Rightarrow> jsval \<Rightarrow> error + jsval) \<Rightarrow>
     'a request_scheme \<Rightarrow> (error + unit) \<times> 'a event list" where
  "outline e c schemas controller req =
     (case verdict e c (paramsSchema schemas) (params req) of
        Halt err \<Rightarrow> (Inl err, [])
      | Reject s1 \<Rightarrow>
          (Inl (Thrown (validationError e ''request'' (params req) s1)),
           [Validated Params s1 (params req) False])
      | Accept s1 \<Rightarrow>
     (case verdict e c (reqBodySchema schemas) (body req) of
        Halt err \<Rightarrow> (Inl err, [Validated Params s1 (params req) True])
      | Reject s2 \<Rightarrow>
          (Inl (Thrown (validationError e ''body'' (body req) s2)),
           [Validated Params s1 (params req) True, Validated ReqBody s2 (body req) False])
      | Accept s2 \<Rightarrow>
     (case verdict e c (reqQuerySchema schemas) (query req) of
        Halt err \<Rightarrow>
          (Inl err,
           [Validated Params s1 (params req) True, Validated ReqBody s2 (body req) True])
      | Reject s3 \<Rightarrow>
          (Inl (Thrown (validationError e ''query'' (query req) s3)),
           [Validated Params s1 (params req) True, Validated ReqBody s2 (body req) True,
            Validated ReqQuery s3 (query req) False])
      | Accept s3 \<Rightarrow>
     (case controller (params req) (body req) (query req) of
        Inl err \<Rightarrow>
          (Inl err,
           [Validated Params s1 (params req) True, Validated ReqBody s2 (body req) True,
            Validated ReqQuery s3 (query req) True,
            Invoked (params req) (body req) (query req)])
      | Inr resBody \<Rightarrow>
     (case verdict e c (resBodySchema schemas) resBody of
        Halt err \<Rightarrow>
          (Inl err,
           [Validated Params s1 (params req) True, Validated ReqBody s2 (body req) True,
            Validated ReqQuery s3 (query req) True,
            Invoked (params req) (body req) (query req)])
      | Reject s4 \<Rightarrow>
          (Inl (Thrown (validationError e ''response body'' resBody s4)),
           [Validated Params s1 (params req) True, Validated ReqBody s2 (body req) True,
            Validated ReqQuery s3 (query req) True,
            Invoked (params req) (body req) (query req),
            Validated ResBody s4 resBody False])
      | Accept s4 \<Rightarrow>
          (Inr (),
           [Validated Params s1 (params req) True, Validated ReqBody s2 (body req) True,
            Validated ReqQuery s3 (query req) True,
            Invoked (params req) (body req) (query req),
            Validated ResBody s4 resBody True, Sent 200 resBody]))))))"

section \<open>Runs of the wrapper\<close>

lemma bind_comp_assoc:
  "bind_comp (bind_comp m f) g = bind_comp m (\<lambda>x. bind_comp (f x) g)"
  by (rule ext) (simp add: bind_comp_def split: prod.splits sum.splits)

text \<open>The wrapper is its four validation blocks around the call of the controller.\<close>

lemma wrappedController_blocks:
  "wrappedController e schemas controller req =
     bind_comp (emit (Logged req)) (\<lambda>_.
     bind_comp (block e Params (paramsSchema schemas) (params req)) (\<lambda>_.
     bind_comp (block e ReqBody (reqBodySchema schemas) (body req)) (\<lambda>_.
     bind_comp (block e ReqQuery (reqQuerySchema schemas) (query req)) (\<lambda>_.
     bind_comp (emit (Invoked (params req) (body req) (query req))) (\<lambda>_.
     bind_comp (lift (controller (params req) (body req) (query req))) (\<lambda>resBody.
     bind_comp (block e ResBody (resBodySchema schemas) resBody) (\<lambda>_.
     emit (Sent 200 resBody))))))))"
  by (simp add: wrappedController_def block_def bind_comp_assoc cong: if_cong)

lemma core_append [simp]: "core (a @ b) = core a @ core b"
  by (simp add: core_def)

lemma core_Nil [simp]: "core [] = []"
  by (simp add: core_def)

lemma core_Cons [simp]: "core (ev # t) = (if observable ev then ev # core t else core t)"
  by (simp add: core_def)

text \<open>
  Loading a schema leaves what \<^verbatim>\<open>require\<close> gives for every name as it was, makes no
  observable call, and gives the schema that the reference stands for.
\<close>

lemma visible_update:
  assumes "c name = None" and "schemaFiles e name = Some doc"
  shows "visible e (c(name \<mapsto> doc)) = visible e c"
  using assms by (auto simp: visible_def map_add_def fun_eq_iff split: option.splits)

lemma loadSchema_run:
  assumes "loadSchema e ref c = (r, t, c')"
  shows "core t = [] \<and> visible e c' = visible e c \<and>
         (case lookupSchema e c ref of
            None \<Rightarrow> \<exists>name. ref = Some name \<and> r = Inl (RequireError name)
          | Some schema \<Rightarrow> r = Inr schema)"
proof (cases "ref = None \<or> ref = Some []")
  case True
  with assms show ?thesis
    by (auto simp: loadSchema_def lookupSchema_def unit_comp_def)
next
  case False
  then obtain name where ref: "ref = Some name" and name: "name \<noteq> []"
    by auto
  show ?thesis
  proof (cases "c name")
    case (Some doc)
    with assms ref name show ?thesis
      by (auto simp: loadSchema_def lookupSchema_def require_def bind_comp_def emit_def
          visible_def)
  next
    case None
    show ?thesis
    proof (cases "schemaFiles e name")
      case missing: None
      with assms ref name None show ?thesis
        by (auto simp: loadSchema_def lookupSchema_def require_def bind_comp_def emit_def
            visible_def map_add_def)
    next
      case (Some doc)
      with assms ref name None have "r = Inr doc" "t = [Required name]" "c' = c(name \<mapsto> doc)"
        by (auto simp: loadSchema_def require_def bind_comp_def emit_def)
      moreover have "lookupSchema e c ref = Some doc"
        using ref name None Some by (simp add: lookupSchema_def visible_def map_add_def)
      ultimately show ?thesis
        using visible_update [of c name e doc] None Some by simp
    qed
  qed
qed

lemma block_after_load:
  assumes "loadSchema e ref c = (r1, t1, c1)"
  shows "block e p ref v c =
     (case r1 of
        Inl err \<Rightarrow> (Inl err, t1, c1)
      | Inr schema \<Rightarrow>
          (case compile e schema of
             Inl err \<Rightarrow> (Inl err, t1 @ [Compiled schema], c1)
           | Inr f \<Rightarrow>
               (if f v then Inr () else Inl (Thrown (validationError e (label p) v schema)),
                t1 @ [Compiled schema, Validated p schema v (f v)], c1)))"
  using assms
  by (simp add: block_def bind_comp_def ajvCompile_def emit_def lift_def throw_def
      unit_comp_def split: sum.splits)

lemma block_visible:
  assumes "block e p ref v c = (r, t, c')"
  shows "visible e c' = visible e c"
proof -
  obtain r1 and t1 :: "'a event list" and c1 where load: "loadSchema e ref c = (r1, t1, c1)"
    by (metis prod_cases3)
  have "c' = c1"
    using assms block_after_load [OF load, of p v]
    by (auto split: sum.splits if_splits)
  with loadSchema_run [OF load] show ?thesis
    by simp
qed

lemma lookupSchema_visible:
  "visible e c' = visible e c \<Longrightarrow> lookupSchema e c' ref = lookupSchema e c ref"
  by (cases ref) (simp_all add: lookupSchema_def)

lemma verdict_visible:
  "visible e c' = visible e c \<Longrightarrow> verdict e c' ref v = verdict e c ref v"
  using lookupSchema_visible [of e c' c ref] by (simp add: verdict_def)

text \<open>The four ways a validation block ends.\<close>

lemma block_cases [consumes 1, case_names missing refused rejected accepted]:
  assumes "block e p ref v c = (r, t, c')"
  obtains
    name where "ref = Some name" "lookupSchema e c ref = None" "r = Inl (RequireError name)"
      "core t = []"
  | schema err where "lookupSchema e c ref = Some schema" "compile e schema = Inl err"
      "r = Inl err" "core t = []"
  | schema f a where "lookupSchema e c ref = Some schema" "compile e schema = Inr f" "\<not> f v"
      "r = Inl (Thrown (validationError e (label p) v schema))"
      "t = a @ [Validated p schema v False]" "core a = []"
  | schema f a where "lookupSchema e c ref = Some schema" "compile e schema = Inr f" "f v"
      "r = Inr ()" "t = a @ [Validated p schema v True]" "core a = []"
proof -
  obtain r1 and t1 :: "'a event list" and c1 where load: "loadSchema e ref c = (r1, t1, c1)"
    by (metis prod_cases3)
  note l = loadSchema_run [OF load]
  note b = assms [unfolded block_after_load [OF load]]
  show thesis
  proof (cases "lookupSchema e c ref")
    case None
    with l obtain name where "ref = Some name" "r1 = Inl (RequireError name)"
      by auto
    moreover from this b have "r = Inl (RequireError name)" "t = t1"
      by auto
    ultimately show thesis
      using None l that(1) by simp
  next
    case (Some schema)
    with l have r1: "r1 = Inr schema" and t1: "core t1 = []"
      by auto
    show thesis
    proof (cases "compile e schema")
      case (Inl err)
      with b r1 have "r = Inl err" "t = t1 @ [Compiled schema]"
        by auto
      then show thesis
        using Some Inl t1 that(2) by simp
    next
      case (Inr f)
      show thesis
      proof (cases "f v")
        case True
        with b r1 Inr have "r = Inr ()"
          "t = (t1 @ [Compiled schema]) @ [Validated p schema v True]"
          by auto
        then show thesis
          using Some Inr True t1 that(4) [of schema f "t1 @ [Compiled schema]"] by simp
      next
        case False
        with b r1 Inr have "r = Inl (Thrown (validationError e (label p) v schema))"
          "t = (t1 @ [Compiled schema]) @ [Validated p schema v False]"
          by auto
        then show thesis
          using Some Inr False t1 that(3) [of schema f "t1 @ [Compiled schema]"] by simp
      qed
    qed
  qed
qed

lemma block_verdict:
  assumes "block e p ref v c = (r, t, c')"
  shows "case verdict e c ref v of
           Halt err \<Rightarrow> r = Inl err \<and> core t = []
         | Reject schema \<Rightarrow>
             r = Inl (Thrown (validationError e (label p) v schema)) \<and>
             core t = [Validated p schema v False] \<and>
             (\<exists>a. t = a @ [Validated p schema v False])
         | Accept schema \<Rightarrow>
             r = Inr () \<and> core t = [Validated p schema v True]"
  using assms
proof (cases rule: block_cases)
  case (missing name)
  then show ?thesis by (simp add: verdict_def)
next
  case (refused schema err)
  then show ?thesis by (simp add: verdict_def)
next
  case (rejected schema f a)
  then show ?thesis by (simp add: verdict_def)
next
  case (accepted schema f a)
  then show ?thesis by (simp add: verdict_def)
qed

lemma bind_comp_Inl: "m c = (Inl err, t, c') \<Longrightarrow> bind_comp m f c = (Inl err, t, c')"
  by (simp add: bind_comp_def)

lemma bind_comp_Inr:
  "m c = (Inr x, t, c') \<Longrightarrow>
     bind_comp m f c = (fst (f x c'), t @ fst (snd (f x c')), snd (snd (f x c')))"
  by (simp add: bind_comp_def split: prod.splits)

lemma summary_bind_block:
  fixes rest :: "('a, 'b) comp"
  assumes rest: "\<And>c1. visible e c1 = visible e c \<Longrightarrow> summary (rest c1) = x"
  shows "summary (bind_comp (block e p ref v) (\<lambda>_. rest) c) =
       (case verdict e c ref v of
          Halt err \<Rightarrow> (Inl err, [])
        | Reject schema \<Rightarrow>
            (Inl (Thrown (validationError e (label p) v schema)), [Validated p schema v False])
        | Accept schema \<Rightarrow> (fst x, Validated p schema v True # snd x))"
proof -
  obtain r1 and t1 :: "'a event list" and c1 where b: "block e p ref v c = (r1, t1, c1)"
    by (metis prod_cases3)
  have c1: "summary (rest c1) = x"
    using b by (intro rest block_visible)
  show ?thesis
  proof (cases "verdict e c ref v")
    case (Halt err)
    with block_verdict [OF b] have "r1 = Inl err" "core t1 = []"
      by simp_all
    with b have "block e p ref v c = (Inl err, t1, c1)"
      by simp
    from bind_comp_Inl [where m = "block e p ref v" and c = c and f = "\<lambda>_. rest", OF this] Halt \<open>core t1 = []\<close> show ?thesis
      by (simp add: summary_def result_def calls_def)
  next
    case (Reject schema)
    with block_verdict [OF b] have
      "r1 = Inl (Thrown (validationError e (label p) v schema))"
      "core t1 = [Validated p schema v False]"
      by simp_all
    with b have
      "block e p ref v c = (Inl (Thrown (validationError e (label p) v schema)), t1, c1)"
      by simp
    from bind_comp_Inl [where m = "block e p ref v" and c = c and f = "\<lambda>_. rest", OF this] Reject \<open>core t1 = [Validated p schema v False]\<close>
    show ?thesis
      by (simp add: summary_def result_def calls_def)
  next
    case (Accept schema)
    with block_verdict [OF b] have "r1 = Inr ()" "core t1 = [Validated p schema v True]"
      by simp_all
    with b have "block e p ref v c = (Inr (), t1, c1)"
      by simp
    from bind_comp_Inr [where m = "block e p ref v" and c = c and f = "\<lambda>_. rest", OF this] Accept c1 [symmetric]
      \<open>core t1 = [Validated p schema v True]\<close>
    show ?thesis
      by (simp add: summary_def result_def calls_def)
  qed
qed

text \<open>The result and the observable calls of a run, in closed form.\<close>

lemma summary_emit: "summary (emit ev c) = (Inr (), core [ev])"
  by (simp add: summary_def result_def calls_def emit_def)

lemma summary_bind_emit:
  "summary (bind_comp (emit ev) (\<lambda>_. rest) c) =
     (fst (summary (rest c)), core [ev] @ snd (summary (rest c)))"
  by (simp add: summary_def result_def calls_def emit_def bind_comp_def split: prod.splits)

lemma summary_bind_lift:
  "summary (bind_comp (lift x) f c) =
     (case x of Inl err \<Rightarrow> (Inl err, []) | Inr y \<Rightarrow> summary (f y c))"
  by (simp add: summary_def result_def calls_def lift_def bind_comp_def
      split: prod.splits sum.splits)

lemma run_outline:
  fixes req :: "'a request_scheme"
  shows "summary (wrappedController e schemas controller req c) =
     outline e c schemas controller req"
proof -
  define P where "P = params req"
  define B where "B = body req"
  define Q where "Q = query req"
  define k4 :: "jsval \<Rightarrow> ('a, unit) comp" where
    "k4 = (\<lambda>resBody. bind_comp (block e ResBody (resBodySchema schemas) resBody)
             (\<lambda>_. emit (Sent 200 resBody)))"
  define k3 :: "('a, unit) comp" where
    "k3 = bind_comp (emit (Invoked P B Q)) (\<lambda>_. bind_comp (lift (controller P B Q)) k4)"
  define k2 :: "('a, unit) comp" where
    "k2 = bind_comp (block e ReqQuery (reqQuerySchema schemas) Q) (\<lambda>_. k3)"
  define k1 :: "('a, unit) comp" where
    "k1 = bind_comp (block e ReqBody (reqBodySchema schemas) B) (\<lambda>_. k2)"
  define k0 :: "('a, unit) comp" where
    "k0 = bind_comp (block e Params (paramsSchema schemas) P) (\<lambda>_. k1)"
  define x4 :: "jsval \<Rightarrow> (error + unit) \<times> 'a event list" where
    "x4 = (\<lambda>resBody. case verdict e c (resBodySchema schemas) resBody of
          Halt err \<Rightarrow> (Inl err, [])
        | Reject schema \<Rightarrow>
            (Inl (Thrown (validationError e ''response body'' resBody schema)),
             [Validated ResBody schema resBody False])
        | Accept schema \<Rightarrow> (Inr (), [Validated ResBody schema resBody True, Sent 200 resBody]))"
  define x3 :: "(error + unit) \<times> 'a event list" where
    "x3 = (case controller P B Q of
             Inl err \<Rightarrow> (Inl err, [Invoked P B Q])
           | Inr resBody \<Rightarrow> (fst (x4 resBody), Invoked P B Q # snd (x4 resBody)))"
  define x2 :: "(error + unit) \<times> 'a event list" where
    "x2 = (case verdict e c (reqQuerySchema schemas) Q of
          Halt err \<Rightarrow> (Inl err, [])
        | Reject schema \<Rightarrow>
            (Inl (Thrown (validationError e ''query'' Q schema)),
             [Validated ReqQuery schema Q False])
        | Accept schema \<Rightarrow> (fst x3, Validated ReqQuery schema Q True # snd x3))"
  define x1 :: "(error + unit) \<times> 'a event list" where
    "x1 = (case verdict e c (reqBodySchema schemas) B of
          Halt err \<Rightarrow> (Inl err, [])
        | Reject schema \<Rightarrow>
            (Inl (Thrown (validationError e ''body'' B schema)),
             [Validated ReqBody schema B False])
        | Accept schema \<Rightarrow> (fst x2, Validated ReqBody schema B True # snd x2))"
  define x0 :: "(error + unit) \<times> 'a event list" where
    "x0 = (case verdict e c (paramsSchema schemas) P of
          Halt err \<Rightarrow> (Inl err, [])
        | Reject schema \<Rightarrow>
            (Inl (Thrown (validationError e ''request'' P schema)),
             [Validated Params schema P False])
        | Accept schema \<Rightarrow> (fst x1, Validated Params schema P True # snd x1))"
  have s4: "summary (k4 resBody d) = x4 resBody" if "visible e d = visible e c" for resBody d
    unfolding k4_def x4_def
    using summary_bind_block [where e = e and c = d and p = ResBody
        and ref = "resBodySchema schemas" and v = resBody
        and rest = "emit (Sent 200 resBody)" and x = "(Inr (), [Sent 200 resBody])"]
      verdict_visible [OF that]
    by (simp add: summary_emit split: verdict.splits)
  have s3: "summary (k3 d) = x3" if "visible e d = visible e c" for d
    unfolding k3_def x3_def
    by (simp add: summary_bind_emit summary_bind_lift s4 [OF that] split: sum.splits)
  have s2: "summary (k2 d) = x2" if "visible e d = visible e c" for d
    unfolding k2_def x2_def
    using summary_bind_block [where e = e and c = d and p = ReqQuery
        and ref = "reqQuerySchema schemas" and v = Q and rest = k3 and x = x3]
      verdict_visible [OF that] s3 that
    by (simp split: verdict.splits)
  have s1: "summary (k1 d) = x1" if "visible e d = visible e c" for d
    unfolding k1_def x1_def
    using summary_bind_block [where e = e and c = d and p = ReqBody
        and ref = "reqBodySchema schemas" and v = B and rest = k2 and x = x2]
      verdict_visible [OF that] s2 that
    by (simp split: verdict.splits)
  have s0: "summary (k0 c) = x0"
    unfolding k0_def x0_def
    using summary_bind_block [where e = e and c = c and p = Params
        and ref = "paramsSchema schemas" and v = P and rest = k1 and x = x1] s1
    by (simp split: verdict.splits)
  have "wrappedController e schemas controller req = bind_comp (emit (Logged req)) (\<lambda>_. k0)"
    by (simp add: wrappedController_blocks k0_def k1_def k2_def k3_def k4_def P_def B_def Q_def)
  then have "summary (wrappedController e schemas controller req c) = x0"
    by (simp add: summary_bind_emit s0)
  also have "x0 = outline e c schemas controller req"
    unfolding x0_def x1_def x2_def x3_def x4_def outline_def P_def B_def Q_def
    by (simp split: verdict.splits sum.splits)
  finally show ?thesis .
qed

text \<open>Steps, invocations and responses are read from the observable calls.\<close>

lemma steps_core: "steps (core t) = steps t"
proof (induction t)
  case Nil
  show ?case by (simp add: steps_def)
next
  case (Cons ev t)
  then show ?case by (cases ev) (simp_all add: steps_def)
qed

lemma responses_core: "responses (core t) = responses t"
proof (induction t)
  case Nil
  show ?case by (simp add: responses_def)
next
  case (Cons ev t)
  then show ?case by (cases ev) (simp_all add: responses_def)
qed

lemma invocations_core: "invocations (core t) = invocations t"
proof (induction t)
  case Nil
  show ?case by (simp add: invocations_def)
next
  case (Cons ev t)
  then show ?case by (cases ev) (simp_all add: invocations_def)
qed

lemma set_core: "observable ev \<Longrightarrow> ev \<in> set (core t) \<longleftrightarrow> ev \<in> set t"
  by (auto simp: core_def)

lemma run_result:
  "result (wrappedController e schemas controller req c) =
     fst (outline e c schemas controller req)"
  using run_outline [of e schemas controller req c] unfolding summary_def
  by (metis fst_conv)

lemma run_core:
  "core (calls (wrappedController e schemas controller req c)) =
     snd (outline e c schemas controller req)"
  using run_outline [of e schemas controller req c] unfolding summary_def
  by (metis snd_conv)

lemma run_steps:
  "steps (calls (wrappedController e schemas controller req c)) =
     steps (snd (outline e c schemas controller req))"
  using steps_core [of "calls (wrappedController e schemas controller req c)"]
  by (simp add: run_core)

lemma run_responses:
  "responses (calls (wrappedController e schemas controller req c)) =
     responses (snd (outline e c schemas controller req))"
  using responses_core [of "calls (wrappedController e schemas controller req c)"]
  by (simp add: run_core)

lemma run_invocations:
  "invocations (calls (wrappedController e schemas controller req c)) =
     invocations (snd (outline e c schemas controller req))"
  using invocations_core [of "calls (wrappedController e schemas controller req c)"]
  by (simp add: run_core)

lemma run_Validated:
  "Validated p s v ok \<in> set (calls (wrappedController e schemas controller req c)) \<longleftrightarrow>
     Validated p s v ok \<in> set (snd (outline e c schemas controller req))"
  using set_core [of "Validated p s v ok" "calls (wrappedController e schemas controller req c)"]
  by (simp add: run_core)

text \<open>A run leaves \<^verbatim>\<open>require\<close> giving for every name what it gave before.\<close>

lemma bind_comp_cache:
  assumes "\<And>c. visible e (cache (m c)) = visible e c"
    and "\<And>x c. visible e (cache (f x c)) = visible e c"
  shows "visible e (cache (bind_comp m f c)) = visible e c"
proof -
  obtain r1 t1 c1 where m: "m c = (r1, t1, c1)"
    by (metis prod_cases3)
  have c1: "visible e c1 = visible e c"
    using assms(1) [of c] m by (simp add: cache_def)
  show ?thesis
  proof (cases r1)
    case (Inl err)
    with m c1 show ?thesis
      by (simp add: bind_comp_def cache_def)
  next
    case (Inr x)
    with m have "m c = (Inr x, t1, c1)"
      by simp
    from bind_comp_Inr [where m = m and c = c and f = f, OF this] c1 assms(2) [of x c1]
    show ?thesis
      by (simp add: cache_def)
  qed
qed

lemma emit_cache: "visible e (cache (emit ev c)) = visible e c"
  by (simp add: emit_def cache_def)

lemma lift_cache: "visible e (cache (lift x c)) = visible e c"
  by (simp add: lift_def cache_def)

lemma block_cache: "visible e (cache (block e p ref v c)) = visible e c"
proof -
  obtain r and t :: "'a event list" and c' where "block e p ref v c = (r, t, c')"
    by (metis prod_cases3)
  then show ?thesis
    using block_visible [of e p ref v c r t c'] by (simp add: cache_def)
qed

lemma run_visible:
  "visible e (cache (wrappedController e schemas controller req c)) = visible e c"
  unfolding wrappedController_blocks
  by (intro bind_comp_cache emit_cache lift_cache block_cache)

text \<open>A validation that fails is the last call of its run, and the run ends in an error.\<close>

lemma bind_comp_failsLast:
  assumes m: "\<And>c. failsLast (m c)" and f: "\<And>x c. failsLast (f x c)"
  shows "failsLast (bind_comp m f c)"
proof -
  obtain r1 t1 c1 where mc: "m c = (r1, t1, c1)"
    by (metis prod_cases3)
  show ?thesis
  proof (cases r1)
    case (Inl err)
    with mc have "m c = (Inl err, t1, c1)"
      by simp
    from bind_comp_Inl [where m = m and c = c and f = f, OF this] m [of c] mc Inl
    show ?thesis
      by (simp add: failsLast_def result_def calls_def)
  next
    case (Inr x)
    with mc have mx: "m c = (Inr x, t1, c1)"
      by simp
    have t1: "Validated p s v False \<notin> set t1" for p s v
      using m [of c] mx by (auto simp: failsLast_def result_def calls_def)
    note b = bind_comp_Inr [where m = m and c = c and f = f, OF mx]
    show ?thesis
      unfolding failsLast_def
    proof (intro allI impI)
      fix p s v
      assume "Validated p s v False \<in> set (calls (bind_comp m f c))"
      with b t1 have "Validated p s v False \<in> set (calls (f x c1))"
        by (simp add: calls_def)
      with f [of x c1, unfolded failsLast_def] obtain err a where
        "result (f x c1) = Inl err" "calls (f x c1) = a @ [Validated p s v False]"
        by blast
      with b have "result (bind_comp m f c) = Inl err"
        "calls (bind_comp m f c) = (t1 @ a) @ [Validated p s v False]"
        by (simp_all add: result_def calls_def)
      then show "(\<exists>err. result (bind_comp m f c) = Inl err) \<and>
          (\<exists>a. calls (bind_comp m f c) = a @ [Validated p s v False])"
        by blast
    qed
  qed
qed

lemma lift_failsLast: "failsLast (lift x c)"
  by (simp add: failsLast_def lift_def calls_def)

lemma core_empty_Validated: "core a = [] \<Longrightarrow> Validated q s w ok \<notin> set a"
  by (induction a) (auto split: if_splits)

lemma block_failsLast:
  fixes c :: modules
  shows "failsLast (block e p ref v c :: (error + unit) \<times> 'a event list \<times> modules)"
proof -
  obtain r and t :: "'a event list" and c' where b: "block e p ref v c = (r, t, c')"
    by (metis prod_cases3)
  then show ?thesis
  proof (cases rule: block_cases)
    case (missing name)
    with b core_empty_Validated [of t] show ?thesis
      by (simp add: failsLast_def calls_def)
  next
    case (refused schema err)
    with b core_empty_Validated [of t] show ?thesis
      by (simp add: failsLast_def calls_def)
  next
    case (rejected schema f a)
    with b core_empty_Validated [of a] show ?thesis
      by (auto simp: failsLast_def calls_def result_def)
  next
    case (accepted schema f a)
    with b core_empty_Validated [of a] show ?thesis
      by (auto simp: failsLast_def calls_def result_def)
  qed
qed

lemma run_failsLast: "failsLast (wrappedController e schemas controller req c)"
  unfolding wrappedController_blocks
  by (intro bind_comp_failsLast block_failsLast lift_failsLast)
    (simp_all add: failsLast_def emit_def calls_def)

text \<open>The empty schema.\<close>

lemma ajv_compile_empty: "ajv_compile (JObj []) = Inr (ajv_validate (JObj []))"
  by (simp add: ajv_compile_def ajv_supported.simps subschemas_def)

lemma ajv_validate_empty: "ajv_validate (JObj []) v"
  by (simp add: ajv_validate.simps checkType_def checkRequired_def subschemas_def
      split: jsval.splits)

lemma verdict_absent:
  assumes "compile e = ajv_compile" and "ref = None \<or> ref = Some []"
  shows "verdict e c ref v = Accept (JObj [])"
  using assms
  by (auto simp: verdict_def lookupSchema_def ajv_compile_empty ajv_validate_empty)

text \<open>The sample: its schemas compiled, and what each of them accepts.\<close>

lemma visible_consistent: "c \<subseteq>\<^sub>m schemaFiles e \<Longrightarrow> visible e c = schemaFiles e"
  by (simp add: visible_def map_add_subsumed2)

lemma run_cache_consistent:
  assumes "c \<subseteq>\<^sub>m schemaFiles e"
  shows "cache (wrappedController e schemas controller req c) \<subseteq>\<^sub>m schemaFiles e"
proof -
  let ?c = "cache (wrappedController e schemas controller req c)"
  have "schemaFiles e ++ ?c = schemaFiles e"
    using run_visible [of e schemas controller req c] visible_consistent [OF assms]
    by (simp add: visible_def)
  then show ?thesis
    by (metis map_le_map_add)
qed

lemma ajv_compile_EditTodoParams:
  "ajv_compile EditTodoParams_json = Inr (ajv_validate EditTodoParams_json)"
proof -
  have "ajv_supported EditTodoParams_json"
    by code_simp
  then show ?thesis
    by (simp add: ajv_compile_def)
qed

lemma ajv_compile_EditTodoReqBody:
  "ajv_compile EditTodoReqBody_json = Inr (ajv_validate EditTodoReqBody_json)"
proof -
  have "ajv_supported EditTodoReqBody_json"
    by code_simp
  then show ?thesis
    by (simp add: ajv_compile_def)
qed

lemma ajv_compile_EditTodoResBody:
  "ajv_compile EditTodoResBody_json = Inr (ajv_validate EditTodoResBody_json)"
proof -
  have "ajv_supported EditTodoResBody_json"
    by code_simp
  then show ?thesis
    by (simp add: ajv_compile_def)
qed

lemma validate_EditTodoParams:
  "ajv_validate EditTodoParams_json v =
     (case v of JObj fs \<Rightarrow> (\<exists>s. field fs ''id'' = JStr s) | _ \<Rightarrow> False)"
  by (cases v)
    (auto simp: EditTodoParams_json_def ajv_validate.simps checkType_def checkRequired_def
      subschemas_def hasType_def present_def split: jsval.splits)

lemma validate_EditTodoReqBody:
  "ajv_validate EditTodoReqBody_json v =
     (case v of
        JObj fs \<Rightarrow>
          (\<exists>s. field fs ''message'' = JStr s) \<and>
          (field fs ''completed?'' = JUndefined \<or> field fs ''completed?'' = JNull \<or>
           (\<exists>b. field fs ''completed?'' = JBool b))
      | _ \<Rightarrow> False)"
  by (cases v)
    (auto simp: EditTodoReqBody_json_def ajv_validate.simps checkType_def checkRequired_def
      subschemas_def hasType_def present_def split: jsval.splits)

lemma validate_EditTodoResBody:
  "ajv_validate EditTodoResBody_json v =
     (case v of
        JObj fs \<Rightarrow>
          (\<exists>s. field fs ''id'' = JStr s) \<and> (\<exists>s. field fs ''message'' = JStr s) \<and>
          (\<exists>b. field fs ''completed'' = JBool b)
      | _ \<Rightarrow> False)"
  by (cases v)
    (auto simp: EditTodoResBody_json_def ajv_validate.simps checkType_def checkRequired_def
      subschemas_def hasType_def present_def split: jsval.splits)

lemma sample_lookup:
  assumes "c \<subseteq>\<^sub>m sampleFiles"
  shows "lookupSchema (sampleEnv str) c (Some ''EditTodoParams'') = Some EditTodoParams_json"
    and "lookupSchema (sampleEnv str) c (Some ''EditTodoReqBody'') = Some EditTodoReqBody_json"
    and "lookupSchema (sampleEnv str) c (Some ''EditTodoResBody'') = Some EditTodoResBody_json"
  using visible_consistent [of c "sampleEnv str"] assms
  by (simp_all add: lookupSchema_def sampleEnv_def sampleFiles_def)

lemma sample_verdict:
  assumes "c \<subseteq>\<^sub>m sampleFiles"
  shows "verdict (sampleEnv str) c (Some ''EditTodoParams'') v =
           (if ajv_validate EditTodoParams_json v then Accept EditTodoParams_json
            else Reject EditTodoParams_json)"
    and "verdict (sampleEnv str) c (Some ''EditTodoReqBody'') v =
           (if ajv_validate EditTodoReqBody_json v then Accept EditTodoReqBody_json
            else Reject EditTodoReqBody_json)"
    and "verdict (sampleEnv str) c (Some ''EditTodoResBody'') v =
           (if ajv_validate EditTodoResBody_json v then Accept EditTodoResBody_json
            else Reject EditTodoResBody_json)"
    and "verdict (sampleEnv str) c None v = Accept (JObj [])"
proof -
  have ajv: "compile (sampleEnv str) = ajv_compile"
    by (simp add: sampleEnv_def)
  show "verdict (sampleEnv str) c (Some ''EditTodoParams'') v =
           (if ajv_validate EditTodoParams_json v then Accept EditTodoParams_json
            else Reject EditTodoParams_json)"
    by (simp add: verdict_def sample_lookup [OF assms] ajv ajv_compile_EditTodoParams)
  show "verdict (sampleEnv str) c (Some ''EditTodoReqBody'') v =
           (if ajv_validate EditTodoReqBody_json v then Accept EditTodoReqBody_json
            else Reject EditTodoReqBody_json)"
    by (simp add: verdict_def sample_lookup [OF assms] ajv ajv_compile_EditTodoReqBody)
  show "verdict (sampleEnv str) c (Some ''EditTodoResBody'') v =
           (if ajv_validate EditTodoResBody_json v then Accept EditTodoResBody_json
            else Reject EditTodoResBody_json)"
    by (simp add: verdict_def sample_lookup [OF assms] ajv ajv_compile_EditTodoResBody)
  show "verdict (sampleEnv str) c None v = Accept (JObj [])"
    using verdict_absent [OF ajv, of None c v] by simp
qed

lemma outline_cong:
  fixes req req' :: "'a request_scheme"
  assumes "visible e c' = visible e c"
    and "params req' = params req" "body req' = body req" "query req' = query req"
  shows "outline e c' schemas controller req' = outline e c schemas controller req"
  unfolding outline_def assms(2-4) verdict_visible [OF assms(1)] ..

section \<open>The sample controller on its inputs\<close>

lemma editTodo_objects:
  "editTodo (JObj ps) (JObj bs) q =
     Inr (JObj [(''id'', field ps ''id''), (''message'', field bs ''message''),
                (''completed'', JBool (\<not> truthy (field bs ''completed'')))])"
  by (simp add: editTodo_def)

text \<open>
  C2. For every value of the params type and every value of the body type, \<open>editTodo\<close>
  returns the record whose \<^verbatim>\<open>id\<close> is that of the params, whose \<^verbatim>\<open>message\<close> is that of
  the body and whose \<^verbatim>\<open>completed\<close> is the negation of the body's, an absent
  \<^verbatim>\<open>completed\<close> counting as false. On params \<^verbatim>\<open>{id: "1"}\<close> and body
  \<^verbatim>\<open>{message: "todo"}\<close> it returns \<^verbatim>\<open>{id: "1", message: "todo", completed: true}\<close>, and
  on the body \<^verbatim>\<open>{message: "todo", completed: true}\<close> it returns \<^verbatim>\<open>completed: false\<close>.
\<close>

theorem editTodo_echoes_and_negates:
  "editTodo (of_EditTodoParams p) (of_EditTodoReqBody b) q =
     Inr (of_EditTodoResBody
       \<lparr>res_id = params_id p, res_message = body_message b,
        res_completed = (\<not> (case body_completed b of None \<Rightarrow> False | Some done \<Rightarrow> done))\<rparr>) \<and>
   editTodo (JObj [(''id'', JStr ''1'')]) (JObj [(''message'', JStr ''todo'')]) q =
     Inr (JObj [(''id'', JStr ''1''), (''message'', JStr ''todo''), (''completed'', JBool True)]) \<and>
   editTodo (JObj [(''id'', JStr ''1'')])
       (JObj [(''message'', JStr ''todo''), (''completed'', JBool True)]) q =
     Inr (JObj [(''id'', JStr ''1''), (''message'', JStr ''todo''), (''completed'', JBool False)])"
  by (cases "body_completed b")
    (simp_all add: editTodo_objects of_EditTodoParams_def of_EditTodoReqBody_def
      of_EditTodoResBody_def field_def)

text \<open>
  C10. The result of \<open>editTodo\<close> does not depend on the query argument: on the same
  params and body, any two queries give the same result.
\<close>

theorem editTodo_ignores_query:
  "editTodo p b q1 = editTodo p b q2"
  by (simp add: editTodo_def)

section \<open>The pipeline\<close>

text \<open>
  C1. For every registration and every request, the steps of a run are an initial part of
  the fixed sequence params, body, query, handler, response validation, response; a run
  that succeeds goes through all of them. A validation that fails is the last call of
  the run, which ends by throwing the error of that validation: nothing is validated,
  called or sent after it. In particular, when the params violate their schema the
  params validation is the only step: body and query are not validated and the handler is
  not invoked; likewise a body or a query that violates its schema ends the steps at its
  validation.
\<close>

theorem pipeline_order_and_short_circuit:
  fixes req :: "'a request_scheme" and e schemas controller c
  defines "R \<equiv> wrappedController e schemas controller req c"
  shows "prefix (steps (calls R)) pipeline \<and>
     (result R = Inr () \<longrightarrow> steps (calls R) = pipeline) \<and>
     (\<forall>p s v. Validated p s v False \<in> set (calls R) \<longrightarrow>
        (\<exists>a. calls R = a @ [Validated p s v False]) \<and>
        (\<exists>a. steps (calls R) = a @ [Validation p]) \<and>
        result R = Inl (Thrown (validationError e (label p) v s))) \<and>
     (violates e c (paramsSchema schemas) (params req) \<longrightarrow>
        steps (calls R) = [Validation Params] \<and> invocations (calls R) = []) \<and>
     (validates e c (paramsSchema schemas) (params req) \<and>
      violates e c (reqBodySchema schemas) (body req) \<longrightarrow>
        steps (calls R) = [Validation Params, Validation ReqBody] \<and>
        invocations (calls R) = []) \<and>
     (validates e c (paramsSchema schemas) (params req) \<and>
      validates e c (reqBodySchema schemas) (body req) \<and>
      violates e c (reqQuerySchema schemas) (query req) \<longrightarrow>
        steps (calls R) = [Validation Params, Validation ReqBody, Validation ReqQuery] \<and>
        invocations (calls R) = [])"
proof (intro conjI allI impI)
  show "steps (calls R) = [Validation Params, Validation ReqBody]"
    if "validates e c (paramsSchema schemas) (params req) \<and>
        violates e c (reqBodySchema schemas) (body req)"
    using that unfolding R_def run_steps
    by (auto simp: outline_def steps_def validates_def violates_def split: verdict.splits)
  show "invocations (calls R) = []"
    if "validates e c (paramsSchema schemas) (params req) \<and>
        violates e c (reqBodySchema schemas) (body req)"
    using that unfolding R_def run_invocations
    by (auto simp: outline_def invocations_def validates_def violates_def
        split: verdict.splits)
  show "steps (calls R) = [Validation Params, Validation ReqBody, Validation ReqQuery]"
    if "validates e c (paramsSchema schemas) (params req) \<and>
        validates e c (reqBodySchema schemas) (body req) \<and>
        violates e c (reqQuerySchema schemas) (query req)"
    using that unfolding R_def run_steps
    by (auto simp: outline_def steps_def validates_def violates_def split: verdict.splits)
  show "invocations (calls R) = []"
    if "validates e c (paramsSchema schemas) (params req) \<and>
        validates e c (reqBodySchema schemas) (body req) \<and>
        violates e c (reqQuerySchema schemas) (query req)"
    using that unfolding R_def run_invocations
    by (auto simp: outline_def invocations_def validates_def violates_def
        split: verdict.splits)
  show "prefix (steps (calls R)) pipeline"
    unfolding R_def run_steps
    by (auto simp: outline_def steps_def pipeline_def split: verdict.splits sum.splits)
  show "steps (calls R) = pipeline" if "result R = Inr ()"
    using that unfolding R_def run_steps run_result
    by (auto simp: outline_def steps_def pipeline_def split: verdict.splits sum.splits)
  show "steps (calls R) = [Validation Params]"
    if "violates e c (paramsSchema schemas) (params req)"
    using that unfolding R_def run_steps
    by (auto simp: outline_def steps_def violates_def split: verdict.splits)
  show "invocations (calls R) = []"
    if "violates e c (paramsSchema schemas) (params req)"
    using that unfolding R_def run_invocations
    by (auto simp: outline_def invocations_def violates_def split: verdict.splits)
next
  fix p s v
  assume bad: "Validated p s v False \<in> set (calls R)"
  with run_failsLast [of e schemas controller req c]
  show "\<exists>a. calls R = a @ [Validated p s v False]"
    by (simp add: failsLast_def R_def)
  then obtain a where "calls R = a @ [Validated p s v False]" ..
  then have "steps (calls R) = steps a @ [Validation p]"
    by (simp add: steps_def)
  then show "\<exists>a. steps (calls R) = a @ [Validation p]" ..
  from bad show "result R = Inl (Thrown (validationError e (label p) v s))"
    unfolding R_def run_Validated run_result
    by (auto simp: outline_def split: verdict.splits sum.splits)
qed

theorem pipeline_order_and_short_circuit_witness:
  "violates plainEnv Map.empty (paramsSchema sampleSchemas) (params noIdRequest) \<and>
   steps (calls (wrappedController plainEnv sampleSchemas editTodo noIdRequest Map.empty)) =
     [Validation Params] \<and>
   result (wrappedController plainEnv sampleSchemas editTodo goodRequest Map.empty) = Inr () \<and>
   steps (calls (wrappedController plainEnv sampleSchemas editTodo goodRequest Map.empty)) =
     pipeline \<and>
   Validated ReqBody EditTodoReqBody_json (JObj []) False \<in>
     set (calls (wrappedController plainEnv sampleSchemas editTodo noMessageRequest Map.empty)) \<and>
   (\<exists>a. steps (calls (wrappedController plainEnv sampleSchemas editTodo noMessageRequest
       Map.empty)) = a @ [Validation ReqBody])"
proof -
  have h1: "violates plainEnv Map.empty (paramsSchema sampleSchemas) (params noIdRequest)"
    by code_simp
  have h2: "result (wrappedController plainEnv sampleSchemas editTodo goodRequest Map.empty) =
      Inr ()"
    by code_simp
  have h3: "Validated ReqBody EditTodoReqBody_json (JObj []) False \<in>
      set (calls (wrappedController plainEnv sampleSchemas editTodo noMessageRequest Map.empty))"
    by code_simp
  from h1 pipeline_order_and_short_circuit [where e = plainEnv and schemas = sampleSchemas
      and controller = editTodo and req = noIdRequest and c = Map.empty]
  have c1: "steps (calls (wrappedController plainEnv sampleSchemas editTodo noIdRequest
      Map.empty)) = [Validation Params]"
    by blast
  from h2 pipeline_order_and_short_circuit [where e = plainEnv and schemas = sampleSchemas
      and controller = editTodo and req = goodRequest and c = Map.empty]
  have c2: "steps (calls (wrappedController plainEnv sampleSchemas editTodo goodRequest
      Map.empty)) = pipeline"
    by blast
  from h3 pipeline_order_and_short_circuit [where e = plainEnv and schemas = sampleSchemas
      and controller = editTodo and req = noMessageRequest and c = Map.empty]
  have c3: "\<exists>a. steps (calls (wrappedController plainEnv sampleSchemas editTodo
      noMessageRequest Map.empty)) = a @ [Validation ReqBody]"
    by blast
  from h1 c1 h2 c2 h3 c3 show ?thesis
    by blast
qed

text \<open>
  C3. A run sends a response exactly when all four validations succeed, and exactly then
  it returns normally. The response is then the one of status 200 whose body is what the
  controller returned. A run in which a validation fails throws the error of that
  validation and sends nothing.
\<close>

theorem response_iff_all_valid:
  fixes req :: "'a request_scheme" and e schemas controller c
  defines "R \<equiv> wrappedController e schemas controller req c"
  shows "(responses (calls R) \<noteq> []) = allValid e c schemas controller req \<and>
     (result R = Inr ()) = allValid e c schemas controller req \<and>
     (\<forall>resBody. allValid e c schemas controller req \<and>
        controller (params req) (body req) (query req) = Inr resBody \<longrightarrow>
        responses (calls R) = [(200, resBody)]) \<and>
     (\<forall>p s v. Validated p s v False \<in> set (calls R) \<longrightarrow>
        result R = Inl (Thrown (validationError e (label p) v s)) \<and> responses (calls R) = [])"
proof (intro conjI allI impI)
  show "(responses (calls R) \<noteq> []) = allValid e c schemas controller req"
    unfolding R_def run_responses
    by (auto simp: outline_def responses_def allValid_def validates_def
        split: verdict.splits sum.splits)
  show "(result R = Inr ()) = allValid e c schemas controller req"
    unfolding R_def run_result
    by (auto simp: outline_def allValid_def validates_def split: verdict.splits sum.splits)
  show "responses (calls R) = [(200, resBody)]"
    if "allValid e c schemas controller req \<and>
        controller (params req) (body req) (query req) = Inr resBody" for resBody
    using that unfolding R_def run_responses
    by (auto simp: outline_def responses_def allValid_def validates_def
        split: verdict.splits sum.splits)
next
  fix p s v
  assume bad: "Validated p s v False \<in> set (calls R)"
  then show "result R = Inl (Thrown (validationError e (label p) v s))"
    unfolding R_def run_Validated run_result
    by (auto simp: outline_def split: verdict.splits sum.splits)
  from bad show "responses (calls R) = []"
    unfolding R_def run_Validated run_responses
    by (auto simp: outline_def responses_def split: verdict.splits sum.splits)
qed

theorem response_iff_all_valid_witness:
  "allValid plainEnv Map.empty sampleSchemas editTodo goodRequest \<and>
   responses (calls (wrappedController plainEnv sampleSchemas editTodo goodRequest Map.empty)) =
     [(200, JObj [(''id'', JStr ''1''), (''message'', JStr ''todo''),
                  (''completed'', JBool True)])] \<and>
   Validated ReqBody EditTodoReqBody_json (JObj []) False \<in>
     set (calls (wrappedController plainEnv sampleSchemas editTodo noMessageRequest Map.empty)) \<and>
   responses (calls (wrappedController plainEnv sampleSchemas editTodo noMessageRequest
     Map.empty)) = []"
proof -
  have h1: "allValid plainEnv Map.empty sampleSchemas editTodo goodRequest"
    by code_simp
  have h2: "editTodo (params goodRequest) (body goodRequest) (query goodRequest) =
      Inr (JObj [(''id'', JStr ''1''), (''message'', JStr ''todo''),
                 (''completed'', JBool True)])"
    by code_simp
  have h3: "Validated ReqBody EditTodoReqBody_json (JObj []) False \<in>
      set (calls (wrappedController plainEnv sampleSchemas editTodo noMessageRequest Map.empty))"
    by code_simp
  from h1 h2 response_iff_all_valid [where e = plainEnv and schemas = sampleSchemas
      and controller = editTodo and req = goodRequest and c = Map.empty]
  have c1: "responses (calls (wrappedController plainEnv sampleSchemas editTodo goodRequest
      Map.empty)) =
     [(200, JObj [(''id'', JStr ''1''), (''message'', JStr ''todo''),
                  (''completed'', JBool True)])]"
    by blast
  from h3 response_iff_all_valid [where e = plainEnv and schemas = sampleSchemas
      and controller = editTodo and req = noMessageRequest and c = Map.empty]
  have c2: "responses (calls (wrappedController plainEnv sampleSchemas editTodo
      noMessageRequest Map.empty)) = []"
    by blast
  from h1 c1 h3 c2 show ?thesis
    by blast
qed



text \<open>
  C5. With the validation library as the compiler, a schema reference that is absent (or
  the empty string) resolves to the empty schema: loading it gives \<^verbatim>\<open>{}\<close> without a
  \<^verbatim>\<open>require\<close>, compiling \<^verbatim>\<open>{}\<close> gives a validator, and that validator accepts every
  value. In a run the stage of that payload, once reached, validates the payload against
  \<^verbatim>\<open>{}\<close> and accepts it: always for the params, after the earlier payloads have passed
  for the body and the query, and after the controller has returned for its result. No
  validation of that payload fails. A registration with no reference at all accepts
  every request: whatever the controller returns is sent with status 200.
\<close>

theorem absent_reference_accepts:
  fixes req :: "'a request_scheme" and e schemas controller c
  defines "R \<equiv> wrappedController e schemas controller req c"
  assumes ajv: "compile e = ajv_compile"
    and absent: "refOf schemas p = None \<or> refOf schemas p = Some []"
  shows "(\<forall>d. loadSchema e (refOf schemas p) d =
            (Inr (JObj []), ([] :: 'a event list), d)) \<and>
     (\<forall>d. \<exists>f. ajvCompile e (JObj []) d = (Inr f, [Compiled (JObj []) :: 'a event], d) \<and>
            (\<forall>v. f v)) \<and>
     lookupSchema e c (refOf schemas p) = Some (JObj []) \<and>
     (\<forall>v. validates e c (refOf schemas p) v) \<and>
     (p = Params \<longrightarrow> Validated Params (JObj []) (params req) True \<in> set (calls R)) \<and>
     (p = ReqBody \<and> validates e c (paramsSchema schemas) (params req) \<longrightarrow>
        Validated ReqBody (JObj []) (body req) True \<in> set (calls R)) \<and>
     (p = ReqQuery \<and> validates e c (paramsSchema schemas) (params req) \<and>
      validates e c (reqBodySchema schemas) (body req) \<longrightarrow>
        Validated ReqQuery (JObj []) (query req) True \<in> set (calls R)) \<and>
     (\<forall>resBody. p = ResBody \<and> validates e c (paramsSchema schemas) (params req) \<and>
        validates e c (reqBodySchema schemas) (body req) \<and>
        validates e c (reqQuerySchema schemas) (query req) \<and>
        controller (params req) (body req) (query req) = Inr resBody \<longrightarrow>
        Validated ResBody (JObj []) resBody True \<in> set (calls R) \<and>
        result R = Inr () \<and> responses (calls R) = [(200, resBody)]) \<and>
     (\<forall>s v ok. Validated p s v ok \<in> set (calls R) \<longrightarrow> s = JObj [] \<and> ok) \<and>
     ((\<forall>q. refOf schemas q = None \<or> refOf schemas q = Some []) \<longrightarrow>
        (\<forall>resBody. controller (params req) (body req) (query req) = Inr resBody \<longrightarrow>
           result R = Inr () \<and> responses (calls R) = [(200, resBody)]))"
proof -
  note a = verdict_absent [OF ajv absent, of c]
  have load: "loadSchema e (refOf schemas p) d = (Inr (JObj []), ([] :: 'a event list), d)"
    for d
    using absent by (auto simp: loadSchema_def unit_comp_def)
  have comp: "\<exists>f. ajvCompile e (JObj []) d = (Inr f, [Compiled (JObj []) :: 'a event], d) \<and>
      (\<forall>v. f v)" for d
    using ajv_validate_empty
    by (auto simp: ajvCompile_def bind_comp_def emit_def lift_def ajv ajv_compile_empty)
  have look: "lookupSchema e c (refOf schemas p) = Some (JObj [])"
    using absent by (auto simp: lookupSchema_def)
  have val: "validates e c (refOf schemas p) v" for v
    by (simp add: validates_def a)
  have params: "Validated Params (JObj []) (params req) True \<in> set (calls R)"
    if "p = Params"
    unfolding R_def run_Validated using a that
    by (auto simp: outline_def split: verdict.splits sum.splits)
  have body: "Validated ReqBody (JObj []) (body req) True \<in> set (calls R)"
    if "p = ReqBody \<and> validates e c (paramsSchema schemas) (params req)"
    unfolding R_def run_Validated using a that
    by (auto simp: outline_def validates_def split: verdict.splits sum.splits)
  have query: "Validated ReqQuery (JObj []) (query req) True \<in> set (calls R)"
    if "p = ReqQuery \<and> validates e c (paramsSchema schemas) (params req) \<and>
      validates e c (reqBodySchema schemas) (body req)"
    unfolding R_def run_Validated using a that
    by (auto simp: outline_def validates_def split: verdict.splits sum.splits)
  have res: "Validated ResBody (JObj []) resBody True \<in> set (calls R) \<and>
      result R = Inr () \<and> responses (calls R) = [(200, resBody)]"
    if "p = ResBody \<and> validates e c (paramsSchema schemas) (params req) \<and>
        validates e c (reqBodySchema schemas) (body req) \<and>
        validates e c (reqQuerySchema schemas) (query req) \<and>
        controller (params req) (body req) (query req) = Inr resBody" for resBody
    unfolding R_def run_Validated run_result run_responses using a that
    by (auto simp: outline_def validates_def responses_def split: verdict.splits sum.splits)
  have only: "s = JObj [] \<and> ok" if "Validated p s v ok \<in> set (calls R)" for s v ok
    using that unfolding R_def run_Validated using a
    by (cases p) (auto simp: outline_def split: verdict.splits sum.splits)
  have none: "result R = Inr () \<and> responses (calls R) = [(200, resBody)]"
    if all: "\<forall>q. refOf schemas q = None \<or> refOf schemas q = Some []"
      and ret: "controller (params req) (body req) (query req) = Inr resBody" for resBody
  proof -
    have v: "verdict e c (refOf schemas q) v = Accept (JObj [])" for q v
      using verdict_absent [OF ajv, of "refOf schemas q" c v] all by blast
    show ?thesis
      unfolding R_def run_result run_responses
      using v [of Params] v [of ReqBody] v [of ReqQuery] v [of ResBody] ret
      by (simp add: outline_def responses_def)
  qed
  from load comp look val params body query res only none show ?thesis
    by blast
qed

theorem absent_reference_accepts_witness:
  "compile plainEnv = ajv_compile \<and> refOf sampleSchemas ReqQuery = None \<and>
   validates plainEnv Map.empty (paramsSchema sampleSchemas) (params goodRequest) \<and>
   validates plainEnv Map.empty (reqBodySchema sampleSchemas) (body goodRequest) \<and>
   loadSchema plainEnv (refOf sampleSchemas ReqQuery) Map.empty =
     (Inr (JObj []), ([] :: unit event list), Map.empty) \<and>
   validates plainEnv Map.empty (refOf sampleSchemas ReqQuery) (JStr ''anything'') \<and>
   Validated ReqQuery (JObj []) (query goodRequest) True \<in>
     set (calls (wrappedController plainEnv sampleSchemas editTodo goodRequest Map.empty)) \<and>
   Validated ReqQuery (JObj []) (query goodRequest) False \<notin>
     set (calls (wrappedController plainEnv sampleSchemas editTodo goodRequest Map.empty)) \<and>
   Validated Params (JObj []) (params noIdRequest) True \<in>
     set (calls (wrappedController plainEnv noSchemas emptyController noIdRequest Map.empty)) \<and>
   result (wrappedController plainEnv noSchemas emptyController noIdRequest Map.empty) =
     Inr () \<and>
   responses (calls (wrappedController plainEnv noSchemas emptyController noIdRequest
     Map.empty)) = [(200, JObj [])]"
proof -
  have h1: "compile plainEnv = ajv_compile"
    by (simp add: plainEnv_def sampleEnv_def)
  have h2: "refOf sampleSchemas ReqQuery = None \<or> refOf sampleSchemas ReqQuery = Some []"
    by (simp add: sampleSchemas_def)
  have h3: "validates plainEnv Map.empty (paramsSchema sampleSchemas) (params goodRequest)"
    by code_simp
  have h4: "validates plainEnv Map.empty (reqBodySchema sampleSchemas) (body goodRequest)"
    by code_simp
  note t = absent_reference_accepts [where e = plainEnv and schemas = sampleSchemas
      and p = ReqQuery and c = Map.empty and controller = editTodo and req = goodRequest,
      OF h1 h2]
  from t have c1: "loadSchema plainEnv (refOf sampleSchemas ReqQuery) Map.empty =
     (Inr (JObj []), ([] :: unit event list), Map.empty)"
    by blast
  from t have c2: "validates plainEnv Map.empty (refOf sampleSchemas ReqQuery)
      (JStr ''anything'')"
    by blast
  from t h3 h4 have c3: "Validated ReqQuery (JObj []) (query goodRequest) True \<in>
     set (calls (wrappedController plainEnv sampleSchemas editTodo goodRequest Map.empty))"
    by blast
  from t have c4: "Validated ReqQuery (JObj []) (query goodRequest) False \<notin>
     set (calls (wrappedController plainEnv sampleSchemas editTodo goodRequest Map.empty))"
    by blast
  have h5: "refOf noSchemas q = None" for q
    by (cases q) (simp_all add: noSchemas_def)
  have h6: "emptyController (params noIdRequest) (body noIdRequest) (query noIdRequest) =
      Inr (JObj [])"
    by (simp add: emptyController_def)
  note u = absent_reference_accepts [where e = plainEnv and schemas = noSchemas
      and p = Params and c = Map.empty and controller = emptyController
      and req = noIdRequest, OF h1]
  from u h5 have c5: "Validated Params (JObj []) (params noIdRequest) True \<in>
     set (calls (wrappedController plainEnv noSchemas emptyController noIdRequest Map.empty))"
    by blast
  from u h5 h6 have c6:
    "result (wrappedController plainEnv noSchemas emptyController noIdRequest Map.empty) =
       Inr () \<and>
     responses (calls (wrappedController plainEnv noSchemas emptyController noIdRequest
       Map.empty)) = [(200, JObj [])]"
    by blast
  from h1 h2 h3 h4 c1 c2 c3 c4 c5 c6 show ?thesis
    by (simp add: sampleSchemas_def)
qed

text \<open>
  C6. When the params, the body and the query of a request pass and the controller returns
  a value that violates the response schema, the run fails at the response validation:
  the handler has been invoked, with the request's values, the failed validation of its
  result is the last call, the error of that validation is thrown, and no response is
  sent.
\<close>

theorem response_violation_fails_after_handler:
  fixes req :: "'a request_scheme" and e schemas controller c
  defines "R \<equiv> wrappedController e schemas controller req c"
  assumes "validates e c (paramsSchema schemas) (params req)"
    and "validates e c (reqBodySchema schemas) (body req)"
    and "validates e c (reqQuerySchema schemas) (query req)"
    and "controller (params req) (body req) (query req) = Inr resBody"
    and "violates e c (resBodySchema schemas) resBody"
  shows "\<exists>s. lookupSchema e c (resBodySchema schemas) = Some s \<and>
     result R = Inl (Thrown (validationError e ''response body'' resBody s)) \<and>
     (\<exists>a. calls R = a @ [Validated ResBody s resBody False]) \<and>
     steps (calls R) =
       [Validation Params, Validation ReqBody, Validation ReqQuery, Handler,
        Validation ResBody] \<and>
     invocations (calls R) = [(params req, body req, query req)] \<and>
     responses (calls R) = []"
proof -
  from assms(6) obtain s where s: "verdict e c (resBodySchema schemas) resBody = Reject s"
    by (auto simp: violates_def split: verdict.splits)
  then have look: "lookupSchema e c (resBodySchema schemas) = Some s"
    by (auto simp: verdict_def split: option.splits sum.splits if_splits)
  from assms(2-5) s obtain s1 s2 s3 where out: "outline e c schemas controller req =
      (Inl (Thrown (validationError e ''response body'' resBody s)),
       [Validated Params s1 (params req) True, Validated ReqBody s2 (body req) True,
        Validated ReqQuery s3 (query req) True,
        Invoked (params req) (body req) (query req),
        Validated ResBody s resBody False])"
    by (auto simp: outline_def validates_def split: verdict.splits)
  have "Validated ResBody s resBody False \<in> set (calls R)"
    unfolding R_def run_Validated out by simp
  with run_failsLast [of e schemas controller req c]
  have last: "\<exists>a. calls R = a @ [Validated ResBody s resBody False]"
    by (simp add: failsLast_def R_def)
  have "result R = Inl (Thrown (validationError e ''response body'' resBody s))"
    unfolding R_def run_result out by simp
  moreover have "steps (calls R) =
       [Validation Params, Validation ReqBody, Validation ReqQuery, Handler,
        Validation ResBody]"
    unfolding R_def run_steps out by (simp add: steps_def)
  moreover have "invocations (calls R) = [(params req, body req, query req)]"
    unfolding R_def run_invocations out by (simp add: invocations_def)
  moreover have "responses (calls R) = []"
    unfolding R_def run_responses out by (simp add: responses_def)
  ultimately show ?thesis
    using look last by blast
qed

theorem response_violation_fails_after_handler_witness:
  "validates plainEnv Map.empty (paramsSchema sampleSchemas) (params goodRequest) \<and>
   validates plainEnv Map.empty (reqBodySchema sampleSchemas) (body goodRequest) \<and>
   validates plainEnv Map.empty (reqQuerySchema sampleSchemas) (query goodRequest) \<and>
   emptyController (params goodRequest) (body goodRequest) (query goodRequest) = Inr (JObj []) \<and>
   violates plainEnv Map.empty (resBodySchema sampleSchemas) (JObj []) \<and>
   steps (calls (wrappedController plainEnv sampleSchemas emptyController goodRequest
     Map.empty)) =
     [Validation Params, Validation ReqBody, Validation ReqQuery, Handler, Validation ResBody] \<and>
   responses (calls (wrappedController plainEnv sampleSchemas emptyController goodRequest
     Map.empty)) = []"
proof -
  have h1: "validates plainEnv Map.empty (paramsSchema sampleSchemas) (params goodRequest)"
    by code_simp
  have h2: "validates plainEnv Map.empty (reqBodySchema sampleSchemas) (body goodRequest)"
    by code_simp
  have h3: "validates plainEnv Map.empty (reqQuerySchema sampleSchemas) (query goodRequest)"
    by code_simp
  have h4: "emptyController (params goodRequest) (body goodRequest) (query goodRequest) =
      Inr (JObj [])"
    by (simp add: emptyController_def)
  have h5: "violates plainEnv Map.empty (resBodySchema sampleSchemas) (JObj [])"
    by code_simp
  from response_violation_fails_after_handler [where e = plainEnv and c = Map.empty
      and schemas = sampleSchemas and controller = emptyController and req = goodRequest
      and resBody = "JObj []", OF h1 h2 h3 h4 h5]
  have "steps (calls (wrappedController plainEnv sampleSchemas emptyController goodRequest
      Map.empty)) =
     [Validation Params, Validation ReqBody, Validation ReqQuery, Handler, Validation ResBody] \<and>
   responses (calls (wrappedController plainEnv sampleSchemas emptyController goodRequest
     Map.empty)) = []"
    by blast
  with h1 h2 h3 h4 h5 show ?thesis
    by blast
qed

text \<open>
  C7. On the sample route, with the schema files of the sample and a module cache that
  holds nothing else, a request whose body lacks \<^verbatim>\<open>message\<close> never reaches the
  controller: the run throws a validation error and sends nothing. When the params are an
  object with a string \<^verbatim>\<open>id\<close>, as the router gives them for \<^verbatim>\<open>/todo/:id\<close>, the run fails
  at the body validation, which is its last call, after the params validation and nothing
  else.
\<close>

theorem body_without_message_rejected:
  fixes req :: "'a request_scheme" and str c
  defines "R \<equiv> wrappedController (sampleEnv str) sampleSchemas editTodo req c"
  assumes cache: "c \<subseteq>\<^sub>m sampleFiles"
    and body: "lacks (body req) ''message''"
  shows "invocations (calls R) = [] \<and> responses (calls R) = [] \<and>
     (\<exists>msg. result R = Inl (Thrown msg)) \<and>
     (\<forall>ps i. params req = JObj ps \<and> field ps ''id'' = JStr i \<longrightarrow>
        result R =
          Inl (Thrown (validationError (sampleEnv str) ''body'' (body req)
                 EditTodoReqBody_json)) \<and>
        (\<exists>a. calls R = a @ [Validated ReqBody EditTodoReqBody_json (body req) False]) \<and>
        steps (calls R) = [Validation Params, Validation ReqBody])"
proof -
  have b: "\<not> ajv_validate EditTodoReqBody_json (body req)"
    using body
    by (auto simp: validate_EditTodoReqBody lacks_def present_def split: jsval.splits)
  have out: "outline (sampleEnv str) c sampleSchemas editTodo req =
      (if ajv_validate EditTodoParams_json (params req)
       then (Inl (Thrown (validationError (sampleEnv str) ''body'' (body req)
                    EditTodoReqBody_json)),
             [Validated Params EditTodoParams_json (params req) True,
              Validated ReqBody EditTodoReqBody_json (body req) False])
       else (Inl (Thrown (validationError (sampleEnv str) ''request'' (params req)
                    EditTodoParams_json)),
             [Validated Params EditTodoParams_json (params req) False]))"
    using b by (simp add: outline_def sampleSchemas_def sample_verdict [OF cache])
  have general: "invocations (calls R) = []" "responses (calls R) = []"
    "\<exists>msg. result R = Inl (Thrown msg)"
    unfolding R_def run_invocations run_responses run_result out
    by (simp_all add: invocations_def responses_def)
  have route: "result R =
          Inl (Thrown (validationError (sampleEnv str) ''body'' (body req)
                 EditTodoReqBody_json)) \<and>
        (\<exists>a. calls R = a @ [Validated ReqBody EditTodoReqBody_json (body req) False]) \<and>
        steps (calls R) = [Validation Params, Validation ReqBody]"
    if params: "params req = JObj ps \<and> field ps ''id'' = JStr i" for ps i
  proof -
    have p: "ajv_validate EditTodoParams_json (params req)"
      using params by (simp add: validate_EditTodoParams)
    have "Validated ReqBody EditTodoReqBody_json (body req) False \<in> set (calls R)"
      unfolding R_def run_Validated out using p by simp
    with run_failsLast [of "sampleEnv str" sampleSchemas editTodo req c]
    have "\<exists>a. calls R = a @ [Validated ReqBody EditTodoReqBody_json (body req) False]"
      by (simp add: failsLast_def R_def)
    moreover have "result R =
        Inl (Thrown (validationError (sampleEnv str) ''body'' (body req)
               EditTodoReqBody_json))"
      unfolding R_def run_result out using p by simp
    moreover have "steps (calls R) = [Validation Params, Validation ReqBody]"
      unfolding R_def run_steps out using p by (simp add: steps_def)
    ultimately show ?thesis
      by blast
  qed
  from general route show ?thesis
    by blast
qed

theorem body_without_message_rejected_witness:
  "Map.empty \<subseteq>\<^sub>m sampleFiles \<and> lacks (body noMessageRequest) ''message'' \<and>
   params noMessageRequest = JObj [(''id'', JStr ''1'')] \<and>
   field [(''id'', JStr ''1'')] ''id'' = JStr ''1'' \<and>
   result (wrappedController plainEnv sampleSchemas editTodo noMessageRequest Map.empty) =
     Inl (Thrown ''Could not validate body # against schema #'') \<and>
   steps (calls (wrappedController plainEnv sampleSchemas editTodo noMessageRequest
     Map.empty)) = [Validation Params, Validation ReqBody] \<and>
   invocations (calls (wrappedController plainEnv sampleSchemas editTodo noMessageRequest
     Map.empty)) = []"
proof -
  have h1: "Map.empty \<subseteq>\<^sub>m sampleFiles"
    by simp
  have h2: "lacks (body noMessageRequest) ''message''"
    by (simp add: noMessageRequest_def lacks_def present_def field_def)
  have h3: "params noMessageRequest = JObj [(''id'', JStr ''1'')] \<and>
      field [(''id'', JStr ''1'')] ''id'' = JStr ''1''"
    by (simp add: noMessageRequest_def field_def)
  from h3 body_without_message_rejected [OF h1 h2, of "\<lambda>v. ''#''"]
  have "result (wrappedController plainEnv sampleSchemas editTodo noMessageRequest Map.empty) =
       Inl (Thrown (validationError plainEnv ''body'' (body noMessageRequest)
         EditTodoReqBody_json)) \<and>
     steps (calls (wrappedController plainEnv sampleSchemas editTodo noMessageRequest
       Map.empty)) = [Validation Params, Validation ReqBody] \<and>
     invocations (calls (wrappedController plainEnv sampleSchemas editTodo noMessageRequest
       Map.empty)) = []"
    unfolding plainEnv_def by blast
  with h1 h2 h3 show ?thesis
    by (simp add: validationError_def plainEnv_def sampleEnv_def)
qed

text \<open>
  C8. A payload that satisfies its schema is accepted and the run goes on to the next
  stage; when all three payloads of the request satisfy their schemas, the controller is
  invoked once, with exactly the request's params, body and query. When one of them
  violates its schema the controller is not invoked, nothing is sent and the run ends in
  an error. Every validation is of the request's own value (or of the controller's
  result), and the controller is never invoked with anything else.
\<close>

theorem valid_payloads_reach_handler_unchanged:
  fixes req :: "'a request_scheme" and e schemas controller c
  defines "R \<equiv> wrappedController e schemas controller req c"
  shows "(validates e c (paramsSchema schemas) (params req) \<longrightarrow>
        (\<exists>s. Validated Params s (params req) True \<in> set (calls R))) \<and>
     (validates e c (paramsSchema schemas) (params req) \<and>
      validates e c (reqBodySchema schemas) (body req) \<longrightarrow>
        (\<exists>s. Validated ReqBody s (body req) True \<in> set (calls R))) \<and>
     (validates e c (paramsSchema schemas) (params req) \<and>
      validates e c (reqBodySchema schemas) (body req) \<and>
      validates e c (reqQuerySchema schemas) (query req) \<longrightarrow>
        (\<exists>s. Validated ReqQuery s (query req) True \<in> set (calls R)) \<and>
        invocations (calls R) = [(params req, body req, query req)]) \<and>
     (violates e c (paramsSchema schemas) (params req) \<or>
      violates e c (reqBodySchema schemas) (body req) \<or>
      violates e c (reqQuerySchema schemas) (query req) \<longrightarrow>
        invocations (calls R) = [] \<and> responses (calls R) = [] \<and>
        (\<exists>err. result R = Inl err)) \<and>
     (\<forall>p b q. (p, b, q) \<in> set (invocations (calls R)) \<longrightarrow>
        p = params req \<and> b = body req \<and> q = query req) \<and>
     (\<forall>p s v ok. Validated p s v ok \<in> set (calls R) \<longrightarrow>
        (case p of
           Params \<Rightarrow> v = params req
         | ReqBody \<Rightarrow> v = body req
         | ReqQuery \<Rightarrow> v = query req
         | ResBody \<Rightarrow> controller (params req) (body req) (query req) = Inr v))"
  unfolding R_def run_Validated run_invocations run_responses run_result
  by (auto simp: outline_def validates_def violates_def invocations_def responses_def
      split: verdict.splits sum.splits)

theorem valid_payloads_reach_handler_unchanged_witness:
  "validates plainEnv Map.empty (paramsSchema sampleSchemas) (params goodRequest) \<and>
   validates plainEnv Map.empty (reqBodySchema sampleSchemas) (body goodRequest) \<and>
   validates plainEnv Map.empty (reqQuerySchema sampleSchemas) (query goodRequest) \<and>
   invocations (calls (wrappedController plainEnv sampleSchemas editTodo goodRequest
     Map.empty)) = [(params goodRequest, body goodRequest, query goodRequest)] \<and>
   violates plainEnv Map.empty (reqBodySchema sampleSchemas) (body noMessageRequest) \<and>
   invocations (calls (wrappedController plainEnv sampleSchemas editTodo noMessageRequest
     Map.empty)) = []"
proof -
  have h1: "validates plainEnv Map.empty (paramsSchema sampleSchemas) (params goodRequest)"
    by code_simp
  have h2: "validates plainEnv Map.empty (reqBodySchema sampleSchemas) (body goodRequest)"
    by code_simp
  have h3: "validates plainEnv Map.empty (reqQuerySchema sampleSchemas) (query goodRequest)"
    by code_simp
  have h4: "violates plainEnv Map.empty (reqBodySchema sampleSchemas) (body noMessageRequest)"
    by code_simp
  from h1 h2 h3 valid_payloads_reach_handler_unchanged [where e = plainEnv
      and schemas = sampleSchemas and controller = editTodo and req = goodRequest
      and c = Map.empty]
  have c1: "invocations (calls (wrappedController plainEnv sampleSchemas editTodo goodRequest
     Map.empty)) = [(params goodRequest, body goodRequest, query goodRequest)]"
    by blast
  from h4 valid_payloads_reach_handler_unchanged [where e = plainEnv
      and schemas = sampleSchemas and controller = editTodo and req = noMessageRequest
      and c = Map.empty]
  have c2: "invocations (calls (wrappedController plainEnv sampleSchemas editTodo
      noMessageRequest Map.empty)) = []"
    by blast
  from h1 h2 h3 c1 h4 c2 show ?thesis
    by blast
qed

text \<open>
  C9. On the sample registration, when a request succeeds, a second request with the same
  params, body and query, served from the module cache that the first one left, succeeds
  too and sends the same response: the one of status 200 with what \<open>editTodo\<close> returns
  on these params, body and query.
\<close>

theorem same_request_twice:
  fixes req req' :: "'a request_scheme" and e c
  defines "R1 \<equiv> wrappedController e sampleSchemas editTodo req c"
  defines "R2 \<equiv> wrappedController e sampleSchemas editTodo req' (cache R1)"
  assumes valid: "result R1 = Inr ()"
    and same: "params req' = params req" "body req' = body req" "query req' = query req"
  shows "result R2 = Inr () \<and> responses (calls R2) = responses (calls R1) \<and>
     (\<exists>resBody. editTodo (params req) (body req) (query req) = Inr resBody \<and>
        responses (calls R1) = [(200, resBody)])"
proof -
  have "visible e (cache R1) = visible e c"
    unfolding R1_def by (rule run_visible)
  then have out: "outline e (cache R1) sampleSchemas editTodo req' =
      outline e c sampleSchemas editTodo req"
    using same by (rule outline_cong)
  have "result R2 = result R1"
    unfolding R1_def R2_def run_result using out by (simp add: R1_def)
  moreover have "responses (calls R2) = responses (calls R1)"
    unfolding R1_def R2_def run_responses using out by (simp add: R1_def)
  moreover have "\<exists>resBody. editTodo (params req) (body req) (query req) = Inr resBody \<and>
        responses (calls R1) = [(200, resBody)]"
    using valid unfolding R1_def run_result run_responses
    by (auto simp: outline_def responses_def split: verdict.splits sum.splits)
  ultimately show ?thesis
    using valid by simp
qed

theorem same_request_twice_witness:
  "result (wrappedController plainEnv sampleSchemas editTodo goodRequest Map.empty) = Inr () \<and>
   result (wrappedController plainEnv sampleSchemas editTodo goodRequest
     (cache (wrappedController plainEnv sampleSchemas editTodo goodRequest Map.empty))) =
     Inr () \<and>
   responses (calls (wrappedController plainEnv sampleSchemas editTodo goodRequest
     (cache (wrappedController plainEnv sampleSchemas editTodo goodRequest Map.empty)))) =
   responses (calls (wrappedController plainEnv sampleSchemas editTodo goodRequest Map.empty))"
proof -
  have h: "result (wrappedController plainEnv sampleSchemas editTodo goodRequest Map.empty) =
      Inr ()"
    by code_simp
  from same_request_twice [OF h, of goodRequest] h show ?thesis
    by simp
qed

end
